(* ===== verification/RMP_Prelude.thy ===== *)
theory RMP_Prelude
  imports Main "HOL-Library.Word"
begin

text \<open>
  Shared vocabulary of the development: the C++ integer types as machine words, the outcome
  type of code that can be killed by the operating system or by the C++ runtime, and the
  generic facts on words, maps and lists that the component theories use.

  \<^item> \<open>u32\<close> and \<open>ul\<close> are the typedefs of \<^verbatim>\<open>include/rmp_types.hpp\<close>; \<open>handle\<close> is its
    \<^verbatim>\<open>typedef long handle\<close> as a 64-bit word (the only negative value the code uses is -1).
  \<^item> \<open>fault\<close> lists the ways in which the modelled code stops a process: an access outside
    the mapped memory, \<^verbatim>\<open>unordered_map::at\<close> on a missing key, a call through a null function
    pointer, a write past the end of a fixed buffer, use of maps that were never allocated or
    already deleted, a wait for a page fault that no thread resolves, a join on a thread
    that was never created, a call of \<^verbatim>\<open>exit\<close>.
\<close>

unbundle bit_operations_syntax

type_synonym byte = "8 word"
type_synonym u32 = "32 word"
type_synonym ul = "64 word"
type_synonym handle = "64 word"
type_synonym page = "byte list"

datatype fault =
    Segv
  | Out_of_range
  | Null_call
  | Null_deref
  | Use_after_free
  | Buffer_overflow
  | Hang
  | Bad_thread
  | Exited
  | Bad_alloc

type_synonym 'a outcome = "fault + 'a"

definition ebind :: "'a outcome \<Rightarrow> ('a \<Rightarrow> 'b outcome) \<Rightarrow> 'b outcome" where
  "ebind r f = (case r of Inl e \<Rightarrow> Inl e | Inr x \<Rightarrow> f x)"

lemma ebind_simps [simp]:
  "ebind (Inl e) f = Inl e"
  "ebind (Inr x) f = f x"
  by (simp_all add: ebind_def)

lemma ebind_eq_Inr [simp]: "ebind r f = Inr y \<longleftrightarrow> (\<exists>x. r = Inr x \<and> f x = Inr y)"
  by (cases r) auto

named_theorems word_facts \<open>conversions between words and natural numbers\<close>
named_theorems op_defs \<open>the definitions of the modelled operations\<close>

subsection \<open>Words\<close>

lemma unat_of_nat_ul [word_facts]: "n < 2 ^ 64 \<Longrightarrow> unat (of_nat n :: ul) = n"
  by (simp add: unat_of_nat)

lemma of_nat_ul_inj: "of_nat n = (of_nat m :: ul) \<Longrightarrow> n < 2 ^ 64 \<Longrightarrow> m < 2 ^ 64 \<Longrightarrow> n = m"
  by (metis unat_of_nat_ul)

lemma unat_lt_u32 [simp]: "unat (x :: u32) < 4294967296"
  using unsigned_less [of x, where 'a = nat] by simp

lemma unat_lt_ul [simp]: "unat (x :: ul) < 18446744073709551616"
  using unsigned_less [of x, where 'a = nat] by simp

lemma unat_ucast_u32_ul [simp]: "unat (ucast (x :: u32) :: ul) = unat x"
proof -
  have "unat x < 2 ^ 64" by (rule less_trans [OF unat_lt_u32]) simp
  then show ?thesis by (simp add: unsigned_ucast_eq take_bit_nat_eq_self)
qed

lemma ucast_u32_ul_eq [simp]: "(ucast (x :: u32) :: ul) = ucast y \<longleftrightarrow> x = (y :: u32)"
  by (metis unat_ucast_u32_ul word_unat_eq_iff)

lemma ucast_ucast_u32 [simp]: "(ucast (ucast (x :: u32) :: ul) :: u32) = x"
  by (rule bit_word_eqI) (simp add: bit_simps)

lemma unat_mult_u32 [word_facts]:
  "unat (x :: u32) * unat y < 2 ^ 32 \<Longrightarrow> unat (x * y) = unat x * unat y"
  by (simp add: unat_word_ariths)

lemma unat_inc_u32 [word_facts]:
  assumes "(x :: u32) \<noteq> - 1"
  shows "unat (x + 1) = Suc (unat x)"
proof -
  have "1 + x \<noteq> 0" using assms by (metis add.commute add_eq_0_iff)
  then have "unat (1 + x) = Suc (unat x)" by (rule unatSuc)
  then show ?thesis by (simp add: add.commute)
qed

lemma unat_pages_lt [word_facts]: "unat (n :: u32) * 4096 < 2 ^ 64"
proof -
  have "unat n * 4096 < 4294967296 * 4096" by simp
  then show ?thesis by (rule less_trans) simp
qed

text \<open>The sign bit never gets set by widening an unsigned 32-bit value, so it is never -1.\<close>

lemma ucast_u32_not_minus_one [simp]: "(ucast (x :: u32) :: ul) \<noteq> - 1"
proof
  assume "(ucast x :: ul) = - 1"
  then have "unat (ucast x :: ul) = unat (- 1 :: ul)" by simp
  then show False using unat_lt_u32 [of x] by (simp add: unsigned_minus_1_eq_mask mask_eq_exp_minus_1)
qed

end
