(* ===== verification/RMP_Types.thy ===== *)
theory RMP_Types
  imports RMP_Prelude
begin

text \<open>
  The data shared by client and server: the error codes of \<^verbatim>\<open>include/rmp_types.hpp\<close> and the
  \<^verbatim>\<open>packet\<close> structure that \<^verbatim>\<open>include/rmp_server.hpp\<close> and \<^verbatim>\<open>include/rmp_client.hpp\<close> declare
  with the same fields. Both sides send the raw object representation of the structure over
  a socket, so its byte layout (LP64 little-endian: \<^verbatim>\<open>sizeof(rmp::packet)\<close> is 4128, the last
  four bytes are padding) is modelled too, with the round trip between a packet and its bytes.
\<close>

subsection \<open>Error codes\<close>

definition ALLOC_FAILED :: u32 where "ALLOC_FAILED = 1"
definition READ_FAILED :: u32 where "READ_FAILED = 2"
definition WRITE_FAILED :: u32 where "WRITE_FAILED = 3"
definition FREE_FAILED :: u32 where "FREE_FAILED = 4"
definition UNKNOWN_ACTION :: u32 where "UNKNOWN_ACTION = 5"
definition INVALID_HANDLE :: u32 where "INVALID_HANDLE = 6"

lemmas error_codes = ALLOC_FAILED_def READ_FAILED_def WRITE_FAILED_def FREE_FAILED_def
  UNKNOWN_ACTION_def INVALID_HANDLE_def

subsection \<open>The packet\<close>

text \<open>
  The field \<^verbatim>\<open>size\<close> is called \<open>psize\<close> here (\<^const>\<open>size\<close> is a HOL constant). \<open>data\<close> is the array
  \<^verbatim>\<open>char data[4096]\<close>: a list whose length is 4096 in every well-formed packet.
\<close>

record packet =
  hndl :: handle
  npages :: u32
  psize :: u32
  offset :: u32
  action :: u32
  data :: page
  error :: u32

definition packet_ok :: "packet \<Rightarrow> bool" where
  "packet_ok p \<longleftrightarrow> length (data p) = 4096"

lemma packet_ok_simps [simp]:
  "packet_ok (p\<lparr>hndl := h\<rparr>) = packet_ok p"
  "packet_ok (p\<lparr>npages := n\<rparr>) = packet_ok p"
  "packet_ok (p\<lparr>psize := n\<rparr>) = packet_ok p"
  "packet_ok (p\<lparr>offset := n\<rparr>) = packet_ok p"
  "packet_ok (p\<lparr>action := n\<rparr>) = packet_ok p"
  "packet_ok (p\<lparr>error := n\<rparr>) = packet_ok p"
  "packet_ok (p\<lparr>data := d\<rparr>) \<longleftrightarrow> length d = 4096"
  by (simp_all add: packet_ok_def)

subsection \<open>Little-endian words\<close>

definition le_bytes :: "nat \<Rightarrow> 'a::len word \<Rightarrow> byte list" where
  "le_bytes n w = map (\<lambda>i. ucast (drop_bit (8 * i) w)) [0..<n]"

fun le_word :: "byte list \<Rightarrow> 'a::len word" where
  "le_word [] = 0"
| "le_word (b # bs) = ucast b OR push_bit 8 (le_word bs)"

lemma length_le_bytes [simp]: "length (le_bytes n w) = n"
  by (simp add: le_bytes_def)

lemma bit_le_word:
  "bit (le_word bs :: 'a::len word) j \<longleftrightarrow>
     j < LENGTH('a) \<and> j div 8 < length bs \<and> bit (bs ! (j div 8)) (j mod 8)"
proof (induction bs arbitrary: j)
  case Nil
  then show ?case by simp
next
  case (Cons b bs)
  show ?case
  proof (cases "j < 8")
    case True
    then show ?thesis by (auto simp: bit_simps dest: bit_imp_le_length)
  next
    case False
    then have split: "j = (j - 8) + 8" by simp
    have "j div 8 = Suc ((j - 8) div 8)" "j mod 8 = (j - 8) mod 8"
      using False by (simp_all add: div_if mod_if)
    moreover have "\<not> bit b j"
      using False by (auto dest: bit_imp_le_length)
    ultimately show ?thesis
      using False by (auto simp: bit_simps Cons.IH)
  qed
qed

lemma le_word_le_bytes:
  assumes "LENGTH('a) = 8 * n"
  shows "le_word (le_bytes n w) = (w :: 'a::len word)"
proof (rule bit_word_eqI)
  fix j assume j: "j < LENGTH('a)"
  then have "j div 8 < n" using assms by (simp add: less_mult_imp_div_less mult.commute)
  with j show "bit (le_word (le_bytes n w) :: 'a word) j \<longleftrightarrow> bit w j"
    by (simp add: bit_le_word le_bytes_def bit_simps)
qed

lemma le_word_u32 [simp]: "le_word (le_bytes 4 w) = (w :: u32)"
  by (rule le_word_le_bytes) simp

lemma le_word_ul [simp]: "le_word (le_bytes 8 w) = (w :: ul)"
  by (rule le_word_le_bytes) simp

subsection \<open>The object representation of a packet\<close>

definition sizeof_packet :: nat where "sizeof_packet = 4128"

definition packet_bytes :: "packet \<Rightarrow> byte list \<Rightarrow> byte list" where
  "packet_bytes p padding =
     le_bytes 8 (hndl p) @ le_bytes 4 (npages p) @ le_bytes 4 (psize p) @
     le_bytes 4 (offset p) @ le_bytes 4 (action p) @ data p @ le_bytes 4 (error p) @ padding"

definition bytes_packet :: "byte list \<Rightarrow> packet" where
  "bytes_packet bs =
     \<lparr>hndl = le_word (take 8 bs), npages = le_word (take 4 (drop 8 bs)),
      psize = le_word (take 4 (drop 12 bs)), offset = le_word (take 4 (drop 16 bs)),
      action = le_word (take 4 (drop 20 bs)), data = take 4096 (drop 24 bs),
      error = le_word (take 4 (drop 4120 bs))\<rparr>"

lemma length_packet_bytes:
  "packet_ok p \<Longrightarrow> length pad = 4 \<Longrightarrow> length (packet_bytes p pad) = sizeof_packet"
  by (simp add: packet_bytes_def packet_ok_def sizeof_packet_def)

lemma packet_ok_bytes_packet: "length bs = sizeof_packet \<Longrightarrow> packet_ok (bytes_packet bs)"
  by (simp add: bytes_packet_def packet_ok_def sizeof_packet_def)

lemma bytes_packet_bytes:
  "packet_ok p \<Longrightarrow> bytes_packet (packet_bytes p pad) = p"
  by (simp add: bytes_packet_def packet_bytes_def packet_ok_def)

end
