(* ===== verification/OS_Memory.thy ===== *)
theory OS_Memory
  imports RMP_Types
begin

text \<open>
  The address space of the server process and the calls the server makes on it. A memory maps
  each address to its byte, \<^const>\<open>None\<close> where nothing is mapped. The kernel is not part of the
  repository: which address \<^verbatim>\<open>mmap\<close> returns and whether \<^verbatim>\<open>mmap\<close> and \<^verbatim>\<open>munmap\<close> succeed are
  parameters, collected in the record \<open>kernel\<close>, and \<open>kernel_ok\<close> names the documented
  behaviour the server relies on. The effect of a successful call on the memory (fresh
  anonymous pages read as zero, \<^verbatim>\<open>munmap\<close> removes whole pages) is written out.
  \<open>load\<close> and \<open>store\<close> are \<^verbatim>\<open>memcpy\<close> out of and into this memory; they fail (the process
  gets SIGSEGV) when a byte of the range is not mapped.
\<close>

type_synonym memory = "ul \<rightharpoonup> byte"

record kernel =
  kpage :: nat
  mmap_pick :: "memory \<Rightarrow> ul \<Rightarrow> ul option"
  munmap_ok :: "memory \<Rightarrow> ul \<Rightarrow> ul \<Rightarrow> bool"

definition in_range :: "ul \<Rightarrow> nat \<Rightarrow> ul \<Rightarrow> bool" where
  "in_range a n x \<longleftrightarrow> unat (x - a) < n"

definition round_up :: "nat \<Rightarrow> nat \<Rightarrow> nat" where
  "round_up pg n = ((n + pg - 1) div pg) * pg"

definition sys_mmap :: "kernel \<Rightarrow> memory \<Rightarrow> ul \<Rightarrow> (ul \<times> memory) option" where
  "sys_mmap k m len =
     (case mmap_pick k m len of
        None \<Rightarrow> None
      | Some a \<Rightarrow>
          Some (a, \<lambda>x. if in_range a (round_up (kpage k) (unat len)) x then Some 0 else m x))"

definition sys_munmap :: "kernel \<Rightarrow> memory \<Rightarrow> ul \<Rightarrow> ul \<Rightarrow> memory option" where
  "sys_munmap k m a len =
     (if munmap_ok k m a len
      then Some (\<lambda>x. if in_range a (round_up (kpage k) (unat len)) x then None else m x)
      else None)"

definition mapped :: "memory \<Rightarrow> ul \<Rightarrow> nat \<Rightarrow> bool" where
  "mapped m a n \<longleftrightarrow> (\<forall>t < n. m (a + of_nat t) \<noteq> None)"

definition load :: "memory \<Rightarrow> ul \<Rightarrow> nat \<Rightarrow> byte list option" where
  "load m a n =
     (if mapped m a n then Some (map (\<lambda>t. the (m (a + of_nat t))) [0..<n]) else None)"

definition store :: "memory \<Rightarrow> ul \<Rightarrow> byte list \<Rightarrow> memory option" where
  "store m a bs =
     (if mapped m a (length bs)
      then Some (\<lambda>x. if in_range a (length bs) x then Some (bs ! unat (x - a)) else m x)
      else None)"

text \<open>
  What \<^verbatim>\<open>mmap(2)\<close> and \<^verbatim>\<open>munmap(2)\<close> document on x86-64 Linux: pages are 4096 bytes; a length
  of 0 is EINVAL for both; a mapping chosen by the kernel is page-aligned, not at address 0,
  inside the address space and, without MAP_FIXED, overlaps no existing mapping.
\<close>

definition kernel_ok :: "kernel \<Rightarrow> bool" where
  "kernel_ok k \<longleftrightarrow>
     kpage k = 4096 \<and>
     (\<forall>m. mmap_pick k m 0 = None) \<and>
     (\<forall>m a. \<not> munmap_ok k m a 0) \<and>
     (\<forall>m len a. mmap_pick k m len = Some a \<longrightarrow>
        a \<noteq> 0 \<and> unat a mod 4096 = 0 \<and>
        unat a + round_up 4096 (unat len) \<le> 2 ^ 64 \<and>
        (\<forall>t < round_up 4096 (unat len). m (a + of_nat t) = None))"

subsection \<open>Ranges\<close>

lemma in_range_of_nat [simp]: "t < 2 ^ 64 \<Longrightarrow> in_range a n (a + of_nat t) \<longleftrightarrow> t < n"
  by (simp add: in_range_def unat_of_nat_ul)

lemma in_range_obtain:
  assumes "in_range a n x"
  obtains t where "t < n" "x = a + of_nat t" "t = unat (x - a)" "t < 2 ^ 64"
proof (rule that)
  show "unat (x - a) < n" using assms by (simp add: in_range_def)
  show "x = a + of_nat (unat (x - a))" by simp
  show "unat (x - a) < 2 ^ 64" using unat_lt_ul [of "x - a"] by simp
qed (rule refl)

lemma not_in_range_0 [simp]: "\<not> in_range a 0 x"
  by (simp add: in_range_def)

lemma round_up_multiple: "pg > 0 \<Longrightarrow> round_up pg (n * pg) = n * pg"
proof -
  assume "pg > 0"
  then have "(pg - 1 + n * pg) div pg = n" by (subst div_mult_self1) simp_all
  moreover have "pg - 1 + n * pg = n * pg + pg - 1" using \<open>pg > 0\<close> by simp
  ultimately show ?thesis by (simp add: round_up_def)
qed

lemma round_up_ge: "pg > 0 \<Longrightarrow> n \<le> round_up pg n"
proof -
  assume pg: "pg > 0"
  let ?q = "(n + pg - 1) div pg" and ?r = "(n + pg - 1) mod pg"
  have "n + pg - 1 = ?q * pg + ?r" by simp
  moreover have "?r \<le> pg - 1" using pg by (simp add: less_Suc_eq_le [symmetric])
  ultimately show ?thesis unfolding round_up_def using pg by linarith
qed

lemma round_up_mono: "n \<le> m \<Longrightarrow> round_up pg n \<le> round_up pg m"
  by (simp add: round_up_def div_le_mono)

subsection \<open>Loads and stores\<close>

lemma mapped_mono: "mapped m a n \<Longrightarrow> k \<le> n \<Longrightarrow> mapped m a k"
  by (simp add: mapped_def)

lemma mapped_sub: "mapped m a n \<Longrightarrow> i + k \<le> n \<Longrightarrow> mapped m (a + of_nat i) k"
  unfolding mapped_def by (metis add.assoc add_less_cancel_left of_nat_add order_less_le_trans)

lemma length_load: "load m a n = Some bs \<Longrightarrow> length bs = n"
  by (auto simp: load_def split: if_splits)

lemma nth_load: "load m a n = Some bs \<Longrightarrow> t < n \<Longrightarrow> m (a + of_nat t) = Some (bs ! t)"
  by (auto simp: load_def mapped_def split: if_splits)

lemma store_in: 
  assumes "store m a bs = Some m'" "t < length bs" "t < 2 ^ 64"
  shows "m' (a + of_nat t) = Some (bs ! t)"
  using assms by (auto simp: store_def unat_of_nat_ul split: if_splits)

lemma store_out: "store m a bs = Some m' \<Longrightarrow> \<not> in_range a (length bs) x \<Longrightarrow> m' x = m x"
  by (auto simp: store_def split: if_splits)

lemma store_mapped: "store m a bs = Some m' \<Longrightarrow> m x \<noteq> None \<Longrightarrow> m' x \<noteq> None"
  by (auto simp: store_def split: if_splits)

lemma load_store:
  assumes "store m a bs = Some m'" "length bs \<le> 2 ^ 64"
  shows "load m' a (length bs) = Some bs"
proof -
  have "m' (a + of_nat t) = Some (bs ! t)" if "t < length bs" for t
    using store_in [OF assms(1) that] that assms(2) by simp
  then show ?thesis by (auto simp: load_def mapped_def intro: nth_equalityI)
qed

subsection \<open>The kernel\<close>

lemma kernel_okD:
  assumes "kernel_ok k" "sys_mmap k m len = Some (a, m')"
  shows "a \<noteq> 0" "len \<noteq> 0" "unat a + round_up 4096 (unat len) \<le> 2 ^ 64"
    and "t < round_up 4096 (unat len) \<Longrightarrow> m (a + of_nat t) = None"
    and "m' x = (if in_range a (round_up 4096 (unat len)) x then Some 0 else m x)"
  using assms by (auto simp: kernel_ok_def sys_mmap_def split: option.splits)

lemma sys_mmap_mapped:
  assumes "kernel_ok k" "sys_mmap k m len = Some (a, m')" "t < unat len"
  shows "m' (a + of_nat t) = Some 0"
proof -
  have "t < round_up 4096 (unat len)" using assms(3) round_up_ge [of 4096 "unat len"] by simp
  moreover have "t < 2 ^ 64" using less_trans [OF assms(3) unat_lt_ul] by simp
  ultimately show ?thesis by (simp add: kernel_okD(5) [OF assms(1,2)])
qed

lemma sys_mmap_frame:
  assumes "kernel_ok k" "sys_mmap k m len = Some (a, m')" "m x \<noteq> None"
  shows "m' x = m x" "\<not> in_range a (unat len) x"
proof -
  have out: "\<not> in_range a (round_up 4096 (unat len)) x"
  proof
    assume "in_range a (round_up 4096 (unat len)) x"
    then obtain t where "t < round_up 4096 (unat len)" "x = a + of_nat t"
      by (rule in_range_obtain)
    then show False using kernel_okD(4) [OF assms(1,2)] assms(3) by simp
  qed
  then show "m' x = m x" by (simp add: kernel_okD(5) [OF assms(1,2)])
  from out show "\<not> in_range a (unat len) x"
    using round_up_ge [of 4096 "unat len"] by (auto simp: in_range_def)
qed

subsection \<open>A concrete kernel\<close>

text \<open>
  A kernel that places each mapping at the first free address of a list, used to show that
  \<^const>\<open>kernel_ok\<close> can hold and to run the server on concrete requests.
\<close>

definition slot_free :: "memory \<Rightarrow> ul \<Rightarrow> ul \<Rightarrow> bool" where
  "slot_free m len a \<longleftrightarrow>
     a \<noteq> 0 \<and> unat a mod 4096 = 0 \<and> unat a + round_up 4096 (unat len) \<le> 2 ^ 64 \<and>
     (\<forall>t < round_up 4096 (unat len). m (a + of_nat t) = None)"

definition slot_kernel :: "ul list \<Rightarrow> kernel" where
  "slot_kernel slots =
     \<lparr>kpage = 4096,
      mmap_pick = (\<lambda>m len. if len = 0 then None else find (slot_free m len) slots),
      munmap_ok = (\<lambda>m a len. len \<noteq> 0)\<rparr>"

lemma kernel_ok_slot_kernel [simp]: "kernel_ok (slot_kernel slots)"
  by (auto simp: kernel_ok_def slot_kernel_def slot_free_def find_Some_iff split: if_splits)

lemma slot_kernel_first:
  assumes "len \<noteq> 0" "slot_free m len a"
  shows "mmap_pick (slot_kernel (a # slots)) m len = Some a"
  using assms by (simp add: slot_kernel_def)

end
