(* ===== verification/RMP_Server.thy ===== *)
theory RMP_Server
  imports OS_Memory
begin

text \<open>
  The class \<^verbatim>\<open>rmp::Server\<close> (\<^verbatim>\<open>include/rmp_server.hpp\<close>) and its request dispatcher
  (\<^verbatim>\<open>server/rmp_server.cpp\<close>). The record \<open>server\<close> holds the data members of the class; the
  record \<open>server_proc\<close> extends it with the memory of the process, which \<^verbatim>\<open>alloc\<close>, \<^verbatim>\<open>read\<close>,
  \<^verbatim>\<open>write\<close> and \<^verbatim>\<open>free\<close> map, copy from, copy to and unmap. Each accessor of the class takes one
  lock for its whole body, so it is one atomic function here; the bodies that call several of
  them are modelled as one thread runs them, which is how \<^verbatim>\<open>server.cpp\<close> uses the class (it
  joins each connection thread before accepting the next connection).

  An access outside the mapped memory kills the process: the result is \<^term>\<open>Inl Segv\<close>. The
  memory of the model holds what \<^verbatim>\<open>mmap\<close> has mapped; the data members of the class, the packet and
  the rest of the process are not addressable in it. A write with a page size other than that of
  the allocation could reach them in the real process, so what the model says after such a write
  is the milder case; the properties of sessions are about requests with the page size 4096.
\<close>

subsection \<open>The class and its accessors\<close>

record server =
  handle_count :: u32
  addr_map :: "handle \<rightharpoonup> ul"
  hndl_n_pages :: "handle \<rightharpoonup> u32"

record server_proc = server +
  mem :: memory

definition new_server :: "memory \<Rightarrow> server_proc" where
  "new_server m =
     \<lparr>handle_count = 0, addr_map = Map.empty, hndl_n_pages = Map.empty, mem = m\<rparr>"

lemma new_server_sel [simp]:
  "handle_count (new_server m) = 0" "addr_map (new_server m) = Map.empty"
  "hndl_n_pages (new_server m) = Map.empty" "mem (new_server m) = m"
  by (simp_all add: new_server_def)

definition get_new_handle :: "'a server_scheme \<Rightarrow> handle \<times> 'a server_scheme" where
  "get_new_handle s =
     (let new_handle = handle_count s
      in (ucast new_handle, s\<lparr>handle_count := handle_count s + 1\<rparr>))"

definition set_addr_map :: "handle \<Rightarrow> ul \<Rightarrow> 'a server_scheme \<Rightarrow> 'a server_scheme" where
  "set_addr_map h addr s = s\<lparr>addr_map := (addr_map s)(h \<mapsto> addr)\<rparr>"

text \<open>
  \<^verbatim>\<open>this->addr_map[hndl]\<close> is \<^verbatim>\<open>unordered_map::operator[]\<close>: a missing key is inserted with the
  value-initialised element, a null pointer (0).
\<close>

definition get_addr_map :: "handle \<Rightarrow> 'a server_scheme \<Rightarrow> ul \<times> 'a server_scheme" where
  "get_addr_map h s =
     (case addr_map s h of
        Some a \<Rightarrow> (a, s)
      | None \<Rightarrow> (0, s\<lparr>addr_map := (addr_map s)(h \<mapsto> 0)\<rparr>))"

definition unset_addr_map :: "handle \<Rightarrow> 'a server_scheme \<Rightarrow> 'a server_scheme" where
  "unset_addr_map h s = s\<lparr>addr_map := (addr_map s)(h := None)\<rparr>"

definition set_hndl_n_pages :: "handle \<Rightarrow> u32 \<Rightarrow> 'a server_scheme \<Rightarrow> 'a server_scheme" where
  "set_hndl_n_pages h n s = s\<lparr>hndl_n_pages := (hndl_n_pages s)(h \<mapsto> n)\<rparr>"

definition get_hndl_n_pages :: "handle \<Rightarrow> 'a server_scheme \<Rightarrow> u32 \<times> 'a server_scheme" where
  "get_hndl_n_pages h s =
     (case hndl_n_pages s h of
        Some n \<Rightarrow> (n, s)
      | None \<Rightarrow> (0, s\<lparr>hndl_n_pages := (hndl_n_pages s)(h \<mapsto> 0)\<rparr>))"

definition unset_hndl_n_pages :: "handle \<Rightarrow> 'a server_scheme \<Rightarrow> 'a server_scheme" where
  "unset_hndl_n_pages h s = s\<lparr>hndl_n_pages := (hndl_n_pages s)(h := None)\<rparr>"

definition contains_key :: "handle \<Rightarrow> 'a server_scheme \<Rightarrow> bool" where
  "contains_key h s \<longleftrightarrow> addr_map s h \<noteq> None"

lemmas accessor_defs [op_defs] = get_new_handle_def set_addr_map_def get_addr_map_def
  unset_addr_map_def set_hndl_n_pages_def get_hndl_n_pages_def unset_hndl_n_pages_def
  contains_key_def

subsection \<open>alloc, read, write, free\<close>

text \<open>
  \<^verbatim>\<open>npages * page_size\<close> multiplies two \<^verbatim>\<open>u32\<close>: the product wraps at 32 bits before it is widened.
  The loop over the pages that follows the \<^verbatim>\<open>mmap\<close> has an empty body.
\<close>

definition server_alloc :: "kernel \<Rightarrow> u32 \<Rightarrow> u32 \<Rightarrow> server_proc \<Rightarrow> handle \<times> server_proc" where
  "server_alloc k np page_size s =
     (let mem_region_size = ucast (np * page_size)
      in case sys_mmap k (mem s) mem_region_size of
           None \<Rightarrow> (- 1, s)
         | Some (remote_mem_region, m') \<Rightarrow>
             (let (h, s1) = get_new_handle (s\<lparr>mem := m'\<rparr>);
                  new_handle = (ucast h :: u32);
                  s2 = set_addr_map (ucast new_handle) remote_mem_region s1;
                  s3 = set_hndl_n_pages (ucast new_handle) np s2
              in (ucast new_handle, s3)))"

definition server_read ::
  "handle \<Rightarrow> packet \<Rightarrow> server_proc \<Rightarrow> (int \<times> packet \<times> server_proc) outcome" where
  "server_read h p s =
     (let off = offset p;
          (np, s1) = get_hndl_n_pages h s;
          (addr, s2) = get_addr_map h s1
      in if off \<ge> np then Inr (- 1, p, s2)
         else let addr_with_offset = addr + ucast (psize p * off)
              in case load (mem s2) addr_with_offset 4096 of
                   None \<Rightarrow> Inl Segv
                 | Some bs \<Rightarrow> Inr (0, p\<lparr>data := bs\<rparr>, s2))"

definition server_write ::
  "handle \<Rightarrow> packet \<Rightarrow> server_proc \<Rightarrow> (int \<times> server_proc) outcome" where
  "server_write h p s =
     (let off = offset p;
          (np, s1) = get_hndl_n_pages h s;
          (addr, s2) = get_addr_map h s1
      in if off \<ge> np then Inr (- 1, s2)
         else let addr_with_offset = addr + ucast (psize p * off)
              in case store (mem s2) addr_with_offset (data p) of
                   None \<Rightarrow> Inl Segv
                 | Some m' \<Rightarrow> Inr (0, s2\<lparr>mem := m'\<rparr>))"

definition server_free :: "kernel \<Rightarrow> handle \<Rightarrow> u32 \<Rightarrow> server_proc \<Rightarrow> int \<times> server_proc" where
  "server_free k h page_size s =
     (if contains_key h s then
        let (np, s1) = get_hndl_n_pages h s
        in if np = 0 then (- 1, s1)
           else let (addr, s2) = get_addr_map h s1;
                    sz = ucast (np * page_size)
                in case sys_munmap k (mem s2) addr sz of
                     None \<Rightarrow> (- 1, s2)
                   | Some m' \<Rightarrow> (0, unset_hndl_n_pages h (unset_addr_map h (s2\<lparr>mem := m'\<rparr>)))
      else (- 1, s))"

subsection \<open>The dispatcher\<close>

definition handle_alloc :: "kernel \<Rightarrow> packet \<Rightarrow> server_proc \<Rightarrow> packet \<times> server_proc" where
  "handle_alloc k p s =
     (let (new_hndl, s') = server_alloc k (npages p) (psize p) s
      in if new_hndl = - 1 then (p\<lparr>error := ALLOC_FAILED\<rparr>, s')
         else (p\<lparr>hndl := new_hndl\<rparr>, s'))"

definition handle_read :: "packet \<Rightarrow> server_proc \<Rightarrow> (packet \<times> server_proc) outcome" where
  "handle_read p s =
     (if \<not> contains_key (hndl p) s then Inr (p\<lparr>error := INVALID_HANDLE\<rparr>, s)
      else ebind (server_read (hndl p) p s)
        (\<lambda>(read_suc, p', s').
           Inr (if read_suc = - 1 then (p'\<lparr>error := READ_FAILED\<rparr>, s') else (p', s'))))"

definition handle_write :: "packet \<Rightarrow> server_proc \<Rightarrow> (packet \<times> server_proc) outcome" where
  "handle_write p s =
     (if \<not> contains_key (hndl p) s then Inr (p\<lparr>error := INVALID_HANDLE\<rparr>, s)
      else ebind (server_write (hndl p) p s)
        (\<lambda>(write_suc, s').
           Inr (if write_suc = - 1 then (p\<lparr>error := WRITE_FAILED\<rparr>, s') else (p, s'))))"

definition handle_free :: "kernel \<Rightarrow> packet \<Rightarrow> server_proc \<Rightarrow> packet \<times> server_proc" where
  "handle_free k p s =
     (if \<not> contains_key (hndl p) s then (p\<lparr>error := INVALID_HANDLE\<rparr>, s)
      else let (write_suc, s') = server_free k (hndl p) (psize p) s
           in if write_suc = - 1 then (p\<lparr>error := FREE_FAILED\<rparr>, s') else (p, s'))"

definition server_handle ::
  "kernel \<Rightarrow> packet \<Rightarrow> server_proc \<Rightarrow> (packet \<times> server_proc) outcome" where
  "server_handle k p s =
     (if action p = 0 then Inr (handle_alloc k p s)
      else if action p = 1 then handle_read p s
      else if action p = 2 then handle_write p s
      else if action p = 3 then Inr (handle_free k p s)
      else Inr (p\<lparr>error := UNKNOWN_ACTION\<rparr>, s))"

lemma server_handle_packet_ok:
  "server_handle k p s = Inr (p', s') \<Longrightarrow> packet_ok p \<Longrightarrow> packet_ok p'"
  by (auto simp: server_handle_def handle_alloc_def handle_read_def handle_write_def
      handle_free_def server_read_def Let_def
      split: if_splits option.splits prod.splits dest: length_load)

subsection \<open>The invariant\<close>

text \<open>
  The server does not store the page size of a region: it is the \<^verbatim>\<open>size\<close> field of each request.
  The client always sends 4096, and the invariant describes the states such requests reach:
  both maps have the same keys; every key is a handle handed out earlier; a region is not
  empty and its size did not wrap at 32 bits; all its bytes are mapped; and two different
  handles never share a byte.
\<close>

definition region_len :: "'a server_scheme \<Rightarrow> handle \<Rightarrow> nat" where
  "region_len s h = (case hndl_n_pages s h of None \<Rightarrow> 0 | Some n \<Rightarrow> unat n * 4096)"

definition regions_disjoint :: "'a server_scheme \<Rightarrow> bool" where
  "regions_disjoint s \<longleftrightarrow>
     (\<forall>h h' a a' t t'. addr_map s h = Some a \<longrightarrow> addr_map s h' = Some a' \<longrightarrow>
        t < region_len s h \<longrightarrow> t' < region_len s h' \<longrightarrow>
        a + of_nat t = a' + of_nat t' \<longrightarrow> h = h')"

definition server_inv :: "server_proc \<Rightarrow> bool" where
  "server_inv s \<longleftrightarrow>
     dom (addr_map s) = dom (hndl_n_pages s) \<and>
     (\<forall>h \<in> dom (addr_map s). unat h < unat (handle_count s)) \<and>
     (\<forall>h n. hndl_n_pages s h = Some n \<longrightarrow> n \<noteq> 0 \<and> unat n * 4096 < 2 ^ 32) \<and>
     (\<forall>h a. addr_map s h = Some a \<longrightarrow> mapped (mem s) a (region_len s h)) \<and>
     regions_disjoint s"

end
