(* ===== verification/Page_Pool.thy ===== *)
theory Page_Pool
  imports RMP_Types
begin

text \<open>
  What a server of remote pages promises, independently of how it keeps them: a pool of
  regions, each a list of 4096-byte pages under a handle. \<open>pool_handle\<close> is the abstract
  dispatcher over such a pool, with the same requests and error codes as
  \<^verbatim>\<open>rmp::Server::handle\<close>. The locale \<open>page_pool\<close> is the contract between a server and its
  clients: every well-formed request is answered, and answered as some pool step answers it.
  The consequences a client relies on (a page read back is the page last written, whatever
  happened to other pages and handles in between) are proved once, inside the locale.
\<close>

subsection \<open>The pool\<close>

type_synonym pool = "handle \<rightharpoonup> page list"

definition zero_page :: page where
  "zero_page = replicate 4096 0"

lemma length_zero_page [simp]: "length zero_page = 4096"
  by (simp add: zero_page_def)

text \<open>
  The two arguments before the packet are the choices the pool leaves open: the handle a
  successful allocation returns (\<^const>\<open>None\<close> when the memory cannot be had) and whether the
  operating system lets the region go.
\<close>

definition pool_handle :: "handle option \<Rightarrow> bool \<Rightarrow> packet \<Rightarrow> pool \<Rightarrow> packet \<times> pool" where
  "pool_handle new_hndl may_free p P =
     (if action p = 0 then
        (case new_hndl of
           None \<Rightarrow> (p\<lparr>error := ALLOC_FAILED\<rparr>, P)
         | Some h \<Rightarrow> (p\<lparr>hndl := h\<rparr>, P(h \<mapsto> replicate (unat (npages p)) zero_page)))
      else if action p \<in> {1, 2, 3} then
        (case P (hndl p) of
           None \<Rightarrow> (p\<lparr>error := INVALID_HANDLE\<rparr>, P)
         | Some pages \<Rightarrow>
             if action p = 1 then
               (if unat (offset p) < length pages
                then (p\<lparr>data := pages ! unat (offset p)\<rparr>, P)
                else (p\<lparr>error := READ_FAILED\<rparr>, P))
             else if action p = 2 then
               (if unat (offset p) < length pages
                then (p, P(hndl p \<mapsto> pages[unat (offset p) := data p]))
                else (p\<lparr>error := WRITE_FAILED\<rparr>, P))
             else if may_free then (p, P(hndl p := None))
             else (p\<lparr>error := FREE_FAILED\<rparr>, P))
      else (p\<lparr>error := UNKNOWN_ACTION\<rparr>, P))"

text \<open>
  The requests the contract covers: 4096-byte pages (\<^verbatim>\<open>PAGE_SIZE\<close> of the client), and an
  allocation whose size in bytes fits in 32 bits.
\<close>

definition request_ok :: "packet \<Rightarrow> bool" where
  "request_ok p \<longleftrightarrow>
     packet_ok p \<and> psize p = 4096 \<and> (action p = 0 \<longrightarrow> unat (npages p) * 4096 < 2 ^ 32)"

text \<open>A request with all fields set, used in concrete runs.\<close>

definition sample_packet :: "u32 \<Rightarrow> handle \<Rightarrow> u32 \<Rightarrow> u32 \<Rightarrow> byte \<Rightarrow> packet" where
  "sample_packet act h n off b =
     \<lparr>hndl = h, npages = n, psize = 4096, offset = off, action = act,
      data = replicate 4096 b, error = 0\<rparr>"

lemma sample_packet_sel [simp]:
  "hndl (sample_packet act h n off b) = h" "npages (sample_packet act h n off b) = n"
  "psize (sample_packet act h n off b) = 4096" "offset (sample_packet act h n off b) = off"
  "action (sample_packet act h n off b) = act"
  "data (sample_packet act h n off b) = replicate 4096 b"
  "error (sample_packet act h n off b) = 0"
  by (simp_all add: sample_packet_def)

lemma request_ok_sample:
  "request_ok (sample_packet act h n off b) \<longleftrightarrow> (act = 0 \<longrightarrow> unat n * 4096 < 2 ^ 32)"
  by (simp add: request_ok_def packet_ok_def)

text \<open>A session: the requests of one connection, in order, over any server.\<close>

fun rpc_session ::
  "(packet \<Rightarrow> 's \<Rightarrow> (packet \<times> 's) outcome) \<Rightarrow> packet list \<Rightarrow> 's \<Rightarrow> (packet list \<times> 's) outcome"
where
  "rpc_session rpc [] s = Inr ([], s)"
| "rpc_session rpc (p # ps) s =
     ebind (rpc p s)
       (\<lambda>(p', s'). ebind (rpc_session rpc ps s') (\<lambda>(rs, s''). Inr (p' # rs, s'')))"

lemma rpc_session_length: "rpc_session rpc ps s = Inr (rs, s') \<Longrightarrow> length rs = length ps"
  by (induction ps arbitrary: s rs) auto

lemma rpc_session_append:
  "rpc_session rpc (ps @ qs) s =
     ebind (rpc_session rpc ps s)
       (\<lambda>(rs, s'). ebind (rpc_session rpc qs s') (\<lambda>(rs', s''). Inr (rs @ rs', s'')))"
proof (induction ps arbitrary: s)
  case Nil
  then show ?case by (cases "rpc_session rpc qs s") auto
next
  case (Cons p ps)
  show ?case
  proof (cases "rpc p s")
    case (Inr r)
    obtain p' s' where r: "r = (p', s')" by force
    show ?thesis
      by (cases "rpc_session rpc ps s'") (auto simp: Inr r Cons.IH ebind_def split: sum.splits)
  qed simp
qed

text \<open>The sessions the pool allows; a handle given out by an allocation was not in use.\<close>

inductive pool_run :: "pool \<Rightarrow> packet list \<Rightarrow> packet list \<Rightarrow> pool \<Rightarrow> bool" where
  pool_done: "pool_run P [] [] P"
| pool_step: "\<forall>h. x = Some h \<longrightarrow> P h = None \<Longrightarrow> (p', P') = pool_handle x y p P \<Longrightarrow>
    pool_run P' ps rs P'' \<Longrightarrow> pool_run P (p # ps) (p' # rs) P''"

inductive_cases pool_run_NilE: "pool_run P [] rs P'"
inductive_cases pool_run_ConsE: "pool_run P (p # ps) rs P'"

definition allocs :: "packet list \<Rightarrow> nat" where
  "allocs ps = length (filter (\<lambda>p. action p = 0) ps)"

lemma allocs_simps [simp]:
  "allocs [] = 0"
  "allocs (p # ps) = (if action p = 0 then 1 else 0) + allocs ps"
  "allocs (ps @ qs) = allocs ps + allocs qs"
  by (simp_all add: allocs_def)

text \<open>A request that leaves page \<open>i\<close> of region \<open>h\<close> alone.\<close>

definition spares :: "handle \<Rightarrow> nat \<Rightarrow> packet \<Rightarrow> bool" where
  "spares h i p \<longleftrightarrow>
     \<not> (action p = 2 \<and> hndl p = h \<and> unat (offset p) = i) \<and> \<not> (action p = 3 \<and> hndl p = h)"

lemma pool_handle_spares:
  assumes "spares h i p" "P h = Some pages" "x = Some h \<Longrightarrow> False"
  shows "\<exists>pages'. snd (pool_handle x y p P) h = Some pages' \<and>
    length pages' = length pages \<and> pages' ! i = pages ! i"
  using assms by (auto simp: pool_handle_def spares_def split: option.splits)

subsection \<open>The contract\<close>

locale page_pool =
  fixes rpc :: "packet \<Rightarrow> 's \<Rightarrow> (packet \<times> 's) outcome"
    and inv :: "'s \<Rightarrow> bool"
    and view :: "'s \<Rightarrow> pool"
    and room :: "'s \<Rightarrow> nat"
  assumes rpc_step: "inv s \<Longrightarrow> request_ok p \<Longrightarrow> (action p = 0 \<longrightarrow> 0 < room s) \<Longrightarrow>
      \<exists>x y p' s'. rpc p s = Inr (p', s') \<and> inv s' \<and>
        (\<forall>h. x = Some h \<longrightarrow> view s h = None) \<and>
        (p', view s') = pool_handle x y p (view s) \<and>
        room s \<le> room s' + (if action p = 0 then 1 else 0)"
    and view_page: "inv s \<Longrightarrow> view s h = Some pages \<Longrightarrow> pg \<in> set pages \<Longrightarrow> length pg = 4096"
begin

lemma rpc_stepE:
  assumes "inv s" "request_ok p" "action p = 0 \<longrightarrow> 0 < room s"
  obtains x y p' s' where "rpc p s = Inr (p', s')" "inv s'"
    "\<forall>h. x = Some h \<longrightarrow> view s h = None"
    "(p', view s') = pool_handle x y p (view s)"
    "room s \<le> room s' + (if action p = 0 then 1 else 0)"
  using rpc_step [OF assms] by blast

lemma read_page:
  assumes "inv s" "request_ok p" "action p = 1" "view s (hndl p) = Some pages"
    "unat (offset p) < length pages"
  obtains s' where "rpc p s = Inr (p\<lparr>data := pages ! unat (offset p)\<rparr>, s')" "inv s'"
    "view s' = view s" "room s \<le> room s'"
proof -
  have "action p = 0 \<longrightarrow> 0 < room s" using assms(3) by simp
  with assms(1,2) obtain x y p' s' where "rpc p s = Inr (p', s')" "inv s'"
    "(p', view s') = pool_handle x y p (view s)"
    "room s \<le> room s' + (if action p = 0 then 1 else 0)"
    by (rule rpc_stepE)
  then show ?thesis using that assms by (simp add: pool_handle_def)
qed

lemma write_page:
  assumes "inv s" "request_ok p" "action p = 2" "view s (hndl p) = Some pages"
    "unat (offset p) < length pages"
  obtains s' where "rpc p s = Inr (p, s')" "inv s'" "room s \<le> room s'"
    "view s' = (view s)(hndl p \<mapsto> pages[unat (offset p) := data p])"
proof -
  have "action p = 0 \<longrightarrow> 0 < room s" using assms(3) by simp
  with assms(1,2) obtain x y p' s' where "rpc p s = Inr (p', s')" "inv s'"
    "(p', view s') = pool_handle x y p (view s)"
    "room s \<le> room s' + (if action p = 0 then 1 else 0)"
    by (rule rpc_stepE)
  then show ?thesis using that assms by (simp add: pool_handle_def)
qed

lemma alloc_pages:
  assumes "inv s" "request_ok p" "action p = 0" "0 < room s"
  obtains s' where "rpc p s = Inr (p\<lparr>error := ALLOC_FAILED\<rparr>, s')" "inv s'" "view s' = view s"
    "room s \<le> Suc (room s')"
  | s' h where "rpc p s = Inr (p\<lparr>hndl := h\<rparr>, s')" "inv s'" "view s h = None"
    "view s' = (view s)(h \<mapsto> replicate (unat (npages p)) zero_page)" "room s \<le> Suc (room s')"
proof -
  have "action p = 0 \<longrightarrow> 0 < room s" using assms(4) by simp
  with assms(1,2) obtain x y p' s' where "rpc p s = Inr (p', s')" "inv s'"
    "\<forall>h. x = Some h \<longrightarrow> view s h = None" "(p', view s') = pool_handle x y p (view s)"
    "room s \<le> room s' + (if action p = 0 then 1 else 0)"
    by (rule rpc_stepE)
  then show ?thesis using that assms(3) by (cases x) (auto simp: pool_handle_def)
qed

lemma session_spares:
  assumes "inv s" "\<forall>p \<in> set ps. request_ok p \<and> spares h i p" "allocs ps \<le> room s"
    and "view s h = Some pages"
  obtains rs s' pages' where "rpc_session rpc ps s = Inr (rs, s')" "inv s'"
    "view s' h = Some pages'" "length pages' = length pages" "pages' ! i = pages ! i"
    "room s \<le> room s' + allocs ps" "length rs = length ps"
  using assms
proof (induction ps arbitrary: s pages thesis)
  case Nil
  then show ?case by simp
next
  case (Cons p ps)
  have "request_ok p" "action p = 0 \<longrightarrow> 0 < room s"
    using Cons.prems by auto
  then obtain x y p' s1 where st: "rpc p s = Inr (p', s1)" "inv s1"
    "\<forall>h. x = Some h \<longrightarrow> view s h = None" "(p', view s1) = pool_handle x y p (view s)"
    "room s \<le> room s1 + (if action p = 0 then 1 else 0)"
    by (rule rpc_stepE [OF Cons.prems(2)])
  have "x \<noteq> Some h" using st(3) Cons.prems(5) by auto
  then obtain pages1 where p1: "view s1 h = Some pages1" "length pages1 = length pages"
    "pages1 ! i = pages ! i"
    using pool_handle_spares [of h i p "view s" pages x y] Cons.prems st(4)
    by (metis list.set_intros(1) snd_conv)
  show ?case
  proof (rule Cons.IH [OF _ st(2) _ _ p1(1)])
    show "\<forall>p \<in> set ps. request_ok p \<and> spares h i p" using Cons.prems by simp
    show "allocs ps \<le> room s1" using Cons.prems(4) st(5) by (simp split: if_splits)
    fix rs s' pages'
    assume "rpc_session rpc ps s1 = Inr (rs, s')" "inv s'" "view s' h = Some pages'"
      "length pages' = length pages1" "pages' ! i = pages1 ! i"
      "room s1 \<le> room s' + allocs ps" "length rs = length ps"
    then show thesis using Cons.prems(1) [of "p' # rs" s' pages'] st p1
      by (simp split: if_splits)
  qed
qed

lemma session_refines:
  assumes "inv s" "\<forall>p \<in> set ps. request_ok p" "allocs ps \<le> room s"
  shows "\<exists>rs s'. rpc_session rpc ps s = Inr (rs, s') \<and> inv s' \<and> pool_run (view s) ps rs (view s')"
  using assms
proof (induction ps arbitrary: s)
  case Nil
  then show ?case by (auto intro: pool_done)
next
  case (Cons p ps)
  have "request_ok p" "action p = 0 \<longrightarrow> 0 < room s" using Cons.prems by auto
  then obtain x y p' s1 where st: "rpc p s = Inr (p', s1)" "inv s1"
    "\<forall>h. x = Some h \<longrightarrow> view s h = None" "(p', view s1) = pool_handle x y p (view s)"
    "room s \<le> room s1 + (if action p = 0 then 1 else 0)"
    by (rule rpc_stepE [OF Cons.prems(1)])
  then have "allocs ps \<le> room s1" using Cons.prems(3) by (simp split: if_splits)
  then obtain rs s' where "rpc_session rpc ps s1 = Inr (rs, s')" "inv s'"
    "pool_run (view s1) ps rs (view s')"
    using Cons.IH [OF st(2)] Cons.prems(2) by auto
  then show ?case using st by (auto intro: pool_step)
qed

lemma read_back:
  assumes s: "inv s" "view s (hndl w) = Some pages" "unat (offset w) < length pages"
    and w: "request_ok w" "action w = 2"
    and mid: "\<forall>q \<in> set mid. request_ok q \<and> spares (hndl w) (unat (offset w)) q"
    and room: "allocs mid \<le> room s"
    and r: "request_ok r" "action r = 1" "hndl r = hndl w" "offset r = offset w"
  shows "\<exists>rs s'. rpc_session rpc (w # mid @ [r]) s = Inr (rs @ [r\<lparr>data := data w\<rparr>], s') \<and>
    length rs = Suc (length mid)"
proof -
  obtain s1 where s1: "rpc w s = Inr (w, s1)" "inv s1" "room s \<le> room s1"
    "view s1 = (view s)(hndl w \<mapsto> pages[unat (offset w) := data w])"
    using s(1) w s(2,3) by (rule write_page)
  then have "view s1 (hndl w) = Some (pages[unat (offset w) := data w])" "allocs mid \<le> room s1"
    using room by simp_all
  then obtain rs s2 pages2 where s2: "rpc_session rpc mid s1 = Inr (rs, s2)" "inv s2"
    "view s2 (hndl w) = Some pages2" "length pages2 = length (pages[unat (offset w) := data w])"
    "pages2 ! unat (offset w) = pages[unat (offset w) := data w] ! unat (offset w)"
    "length rs = length mid"
    using session_spares [OF s1(2) mid] by metis
  moreover have "view s2 (hndl r) = Some pages2" "unat (offset r) < length pages2"
    using s2 r s(3) by simp_all
  then obtain s3 where "rpc r s2 = Inr (r\<lparr>data := pages2 ! unat (offset r)\<rparr>, s3)"
    by (rule read_page [OF s2(2) r(1,2)])
  ultimately have "rpc_session rpc (w # mid @ [r]) s = Inr ((w # rs) @ [r\<lparr>data := data w\<rparr>], s3)"
    using s1(1) s(3) r(4) by (simp add: rpc_session_append)
  then show ?thesis using s2(6) by (metis length_Cons)
qed

lemma fresh_zero:
  assumes s: "inv s" and a: "request_ok a" "action a = 0" "rpc a s = Inr (a', s1)"
      "error a' = error a" "error a \<noteq> ALLOC_FAILED"
    and mid: "\<forall>q \<in> set mid. request_ok q \<and> spares (hndl a') (unat (offset r)) q"
    and room: "Suc (allocs mid) \<le> room s"
    and r: "request_ok r" "action r = 1" "hndl r = hndl a'" "unat (offset r) < unat (npages a)"
  shows "\<exists>rs s'. rpc_session rpc (mid @ [r]) s1 = Inr (rs @ [r\<lparr>data := zero_page\<rparr>], s')"
proof -
  have "action a = 0 \<longrightarrow> 0 < room s" using room by simp
  then obtain x y where st: "inv s1" "(a', view s1) = pool_handle x y a (view s)"
    "room s \<le> room s1 + (if action a = 0 then 1 else 0)"
    using rpc_stepE [OF s a(1)] a(3) by (metis Inr_inject Pair_inject)
  then have v: "view s1 (hndl a') = Some (replicate (unat (npages a)) zero_page)"
    using a by (cases x) (auto simp: pool_handle_def)
  have "allocs mid \<le> room s1" using st(3) room a(2) by simp
  then obtain rs s2 pages2 where s2: "rpc_session rpc mid s1 = Inr (rs, s2)" "inv s2"
    "view s2 (hndl a') = Some pages2"
    "length pages2 = length (replicate (unat (npages a)) zero_page)"
    "pages2 ! unat (offset r) = replicate (unat (npages a)) zero_page ! unat (offset r)"
    using session_spares [OF st(1) mid _ v] by metis
  moreover have "view s2 (hndl r) = Some pages2" "unat (offset r) < length pages2"
    using s2 r by simp_all
  then obtain s3 where "rpc r s2 = Inr (r\<lparr>data := pages2 ! unat (offset r)\<rparr>, s3)"
    by (rule read_page [OF s2(2) r(1,2)])
  ultimately show ?thesis using r(4) by (simp add: rpc_session_append)
qed

end

end
