(* ===== verification/RMP_Server_Spec.thy ===== *)
theory RMP_Server_Spec
  imports RMP_Server Page_Pool
begin

text \<open>
  The server implements the pool of \<^verbatim>\<open>Page_Pool\<close>: \<open>server_abs\<close> reads the pool off the maps and
  the memory of the server, and every well-formed request keeps \<^const>\<open>server_inv\<close> and is
  answered as the pool answers it, errors included. The theory ends with the interpretation of
  the contract \<^verbatim>\<open>page_pool\<close> on the server and a small concrete server for evaluated runs.
\<close>

definition page_at :: "memory \<Rightarrow> ul \<Rightarrow> nat \<Rightarrow> page" where
  "page_at m a i = map (\<lambda>t. the (m (a + of_nat (i * 4096 + t)))) [0..<4096]"

definition server_abs :: "server_proc \<Rightarrow> pool" where
  "server_abs s h =
     (case (addr_map s h, hndl_n_pages s h) of
        (Some a, Some n) \<Rightarrow> Some (map (page_at (mem s) a) [0..<unat n])
      | _ \<Rightarrow> None)"

subsection \<open>Consequences of the invariant\<close>

lemma length_page_at [simp]: "length (page_at m a i) = 4096"
  by (simp add: page_at_def)

lemma region_len_Some [simp]: "hndl_n_pages s h = Some n \<Longrightarrow> region_len s h = unat n * 4096"
  by (simp add: region_len_def)

lemma region_len_None [simp]: "hndl_n_pages s h = None \<Longrightarrow> region_len s h = 0"
  by (simp add: region_len_def)

lemma server_inv_region:
  assumes "server_inv s" "addr_map s h = Some a"
  obtains n where "hndl_n_pages s h = Some n" "n \<noteq> 0" "unat n * 4096 < 2 ^ 32"
    "mapped (mem s) a (unat n * 4096)" "unat h < unat (handle_count s)"
proof -
  from assms obtain n where n: "hndl_n_pages s h = Some n"
    unfolding server_inv_def by blast
  moreover have "mapped (mem s) a (region_len s h)"
    using assms unfolding server_inv_def by blast
  moreover have "n \<noteq> 0" "unat n * 4096 < 2 ^ 32" "unat h < unat (handle_count s)"
    using assms n by (auto simp: server_inv_def)
  ultimately show ?thesis using that by simp
qed

lemma server_inv_None:
  "server_inv s \<Longrightarrow> addr_map s h = None \<longleftrightarrow> hndl_n_pages s h = None"
  by (auto simp: server_inv_def)

lemma server_abs_None: "server_inv s \<Longrightarrow> server_abs s h = None \<longleftrightarrow> addr_map s h = None"
  by (auto simp: server_abs_def server_inv_None split: option.splits)

lemma server_abs_absent: "addr_map s h = None \<Longrightarrow> server_abs s h = None"
  by (simp add: server_abs_def)

lemma server_abs_Some:
  "addr_map s h = Some a \<Longrightarrow> hndl_n_pages s h = Some n \<Longrightarrow>
     server_abs s h = Some (map (page_at (mem s) a) [0..<unat n])"
  by (simp add: server_abs_def)

lemma page_address:
  assumes "unat off < unat n" "unat n * 4096 < 2 ^ 32"
  shows "(ucast ((4096 :: u32) * off) :: ul) = of_nat (unat off * 4096)"
proof -
  have lt: "unat off * 4096 < 2 ^ 32"
    using assms by (meson le_less_trans less_imp_le_nat mult_le_mono1)
  then have "unat ((4096 :: u32) * off) = unat off * 4096"
    by (simp add: unat_mult_u32)
  moreover have "unat (of_nat (unat off * 4096) :: ul) = unat off * 4096"
    by (rule unat_of_nat_ul) (use lt in simp)
  ultimately show ?thesis by (simp only: word_unat_eq_iff unat_ucast_u32_ul)
qed

lemma page_mapped:
  assumes "mapped m a (unat n * 4096)" "i < unat n"
  shows "mapped m (a + of_nat (i * 4096)) 4096"
  by (rule mapped_sub [OF assms(1)]) (use assms(2) in simp)

lemma load_page:
  assumes "mapped m a (unat n * 4096)" "i < unat n"
  shows "load m (a + of_nat (i * 4096)) 4096 = Some (page_at m a i)"
  using page_mapped [OF assms] by (simp add: load_def page_at_def add.assoc)

subsection \<open>Reading\<close>

lemma server_read_eq:
  assumes "server_inv s" "addr_map s h = Some a" "hndl_n_pages s h = Some n" "psize p = 4096"
  shows "server_read h p s =
    (if offset p \<ge> n then Inr (- 1, p, s)
     else Inr (0, p\<lparr>data := page_at (mem s) a (unat (offset p))\<rparr>, s))"
proof -
  have n: "unat n * 4096 < 2 ^ 32" "mapped (mem s) a (unat n * 4096)"
    using assms by (auto elim: server_inv_region)
  have "load (mem s) (a + ucast (4096 * offset p)) 4096 = Some (page_at (mem s) a (unat (offset p)))"
    if "offset p < n"
  proof -
    have "unat (offset p) < unat n" using that by (simp add: word_less_nat_alt)
    then show ?thesis by (simp only: page_address [OF _ n(1)] load_page [OF n(2)])
  qed
  then show ?thesis
    using assms by (auto simp: server_read_def accessor_defs Let_def not_le)
qed

lemma handle_read_refines:
  assumes "server_inv s" "psize p = 4096" "action p = 1"
  shows "handle_read p s = Inr (fst (pool_handle x y p (server_abs s)), s)"
    and "snd (pool_handle x y p (server_abs s)) = server_abs s"
proof -
  show "handle_read p s = Inr (fst (pool_handle x y p (server_abs s)), s)"
  proof (cases "addr_map s (hndl p)")
    case None
    then show ?thesis using assms
      by (simp add: handle_read_def contains_key_def pool_handle_def server_abs_absent)
  next
    case (Some a)
    then obtain n where n: "hndl_n_pages s (hndl p) = Some n"
      using assms(1) by (auto elim: server_inv_region)
    show ?thesis using assms Some n
      by (simp add: handle_read_def contains_key_def pool_handle_def server_abs_Some
          server_read_eq word_le_nat_alt)
  qed
  show "snd (pool_handle x y p (server_abs s)) = server_abs s"
    using assms(3) by (simp add: pool_handle_def split: option.splits)
qed

subsection \<open>Writing\<close>

lemma server_inv_mem:
  assumes "server_inv s" "\<And>x. mem s x \<noteq> None \<Longrightarrow> m' x \<noteq> None"
  shows "server_inv (s\<lparr>mem := m'\<rparr>)"
  using assms by (auto simp: server_inv_def regions_disjoint_def region_len_def mapped_def)

lemma page_at_store_same:
  assumes "store m (a + of_nat (j * 4096)) bs = Some m'" "length bs = 4096"
  shows "page_at m' a j = bs"
proof (rule nth_equalityI)
  show "length (page_at m' a j) = length bs" using assms(2) by simp
  fix t assume "t < length (page_at m' a j)"
  then have t: "t < 4096" by simp
  then have "m' (a + of_nat (j * 4096) + of_nat t) = Some (bs ! t)"
    using assms by (intro store_in) auto
  then show "page_at m' a j ! t = bs ! t" using t by (simp add: page_at_def add.assoc)
qed

lemma page_at_store_other:
  assumes "store m (a + of_nat (j * 4096)) bs = Some m'" "length bs = 4096"
    and apart: "\<And>t u. t < 4096 \<Longrightarrow> u < 4096 \<Longrightarrow>
      a' + of_nat (i * 4096 + t) \<noteq> a + of_nat (j * 4096 + u)"
  shows "page_at m' a' i = page_at m a' i"
proof -
  have "m' (a' + of_nat (i * 4096 + t)) = m (a' + of_nat (i * 4096 + t))" if "t < 4096" for t
  proof (rule store_out [OF assms(1)])
    show "\<not> in_range (a + of_nat (j * 4096)) (length bs) (a' + of_nat (i * 4096 + t))"
    proof
      assume "in_range (a + of_nat (j * 4096)) (length bs) (a' + of_nat (i * 4096 + t))"
      then obtain u where "u < length bs"
        "a' + of_nat (i * 4096 + t) = a + of_nat (j * 4096) + of_nat u"
        by (rule in_range_obtain)
      then show False using apart [OF that, of u] assms(2) by (simp add: add.assoc)
    qed
  qed
  then show ?thesis by (simp add: page_at_def)
qed

lemma cell_in_page: "i < n \<Longrightarrow> t < 4096 \<Longrightarrow> i * 4096 + t < n * (4096 :: nat)"
  by (rule less_le_trans [of _ "Suc i * 4096"]) (auto intro: mult_le_mono1)

lemma pages_apart:
  assumes inv: "server_inv s"
    and h: "addr_map s h = Some a" "hndl_n_pages s h = Some n" "i < unat n"
    and h': "addr_map s h' = Some a'" "hndl_n_pages s h' = Some n'" "j < unat n'"
    and ne: "h \<noteq> h' \<or> i \<noteq> j" and tu: "t < 4096" "u < 4096"
  shows "a + of_nat (i * 4096 + t) \<noteq> a' + of_nat (j * 4096 + u)"
proof
  assume eq: "a + of_nat (i * 4096 + t) = a' + of_nat (j * 4096 + u)"
  have cells: "i * 4096 + t < unat n * 4096" "j * 4096 + u < unat n' * 4096"
    using h(3) h'(3) tu by (auto intro: cell_in_page)
  have "regions_disjoint s" using inv by (simp add: server_inv_def)
  then have "h = h'"
    using h h' cells eq unfolding regions_disjoint_def by (metis region_len_Some)
  then have "of_nat (i * 4096 + t) = (of_nat (j * 4096 + u) :: ul)" "n = n'"
    using eq h h' by auto
  moreover have "unat n * 4096 < 2 ^ 64" "unat n' * 4096 < 2 ^ 64"
    by (rule unat_pages_lt)+
  ultimately have "i * 4096 + t = j * 4096 + u"
    using cells by (auto intro: of_nat_ul_inj dest: less_trans)
  then have "(i * 4096 + t) div 4096 = (j * 4096 + u) div 4096" by simp
  then have "i = j" using tu by simp
  with \<open>h = h'\<close> ne show False by simp
qed

lemma server_write_effect:
  assumes inv: "server_inv s" and h: "addr_map s h = Some a" "hndl_n_pages s h = Some n"
    and p: "psize p = 4096" "packet_ok p" and off: "offset p < n"
  obtains m' where "server_write h p s = Inr (0, s\<lparr>mem := m'\<rparr>)"
    "store (mem s) (a + of_nat (unat (offset p) * 4096)) (data p) = Some m'"
proof -
  have n: "unat n * 4096 < 2 ^ 32" "mapped (mem s) a (unat n * 4096)"
    using inv h by (auto elim: server_inv_region)
  have lt: "unat (offset p) < unat n" using off by (simp add: word_less_nat_alt)
  have len: "length (data p) = 4096" using p(2) by (simp add: packet_ok_def)
  have "mapped (mem s) (a + of_nat (unat (offset p) * 4096)) (length (data p))"
    using page_mapped [OF n(2) lt] len by simp
  then obtain m' where m':
    "store (mem s) (a + of_nat (unat (offset p) * 4096)) (data p) = Some m'"
    by (simp add: store_def)
  moreover have "server_write h p s = Inr (0, s\<lparr>mem := m'\<rparr>)"
    using h p off m' unfolding server_write_def accessor_defs Let_def
    by (simp only: option.case prod.case page_address [OF lt n(1)]) (simp add: not_le)
  ultimately show ?thesis by (rule that [rotated])
qed

lemma server_abs_store:
  assumes inv: "server_inv s" and h: "addr_map s h = Some a" "hndl_n_pages s h = Some n"
    and j: "j < unat n" and st: "store (mem s) (a + of_nat (j * 4096)) bs = Some m'"
    and len: "length bs = 4096"
  shows "server_abs (s\<lparr>mem := m'\<rparr>) =
    (server_abs s)(h \<mapsto> (map (page_at (mem s) a) [0..<unat n])[j := bs])"
proof
  fix h'
  have other: "page_at m' a' i = page_at (mem s) a' i"
    if "addr_map s h' = Some a'" "hndl_n_pages s h' = Some n'" "i < unat n'" "h' \<noteq> h \<or> i \<noteq> j"
    for a' n' i
    using st len pages_apart [OF inv that(1-3) h j that(4)] by (rule page_at_store_other)
  show "server_abs (s\<lparr>mem := m'\<rparr>) h' =
    ((server_abs s)(h \<mapsto> (map (page_at (mem s) a) [0..<unat n])[j := bs])) h'"
  proof (cases "h' = h")
    case True
    then show ?thesis
      using h j other page_at_store_same [OF st len]
      by (auto simp: server_abs_def intro!: nth_equalityI simp: nth_list_update)
  next
    case False
    then show ?thesis using other by (auto simp: server_abs_def split: option.splits)
  qed
qed

lemma handle_write_refines:
  assumes "server_inv s" "psize p = 4096" "packet_ok p" "action p = 2"
  shows "\<exists>s'. handle_write p s = Inr (fst (pool_handle x y p (server_abs s)), s') \<and>
    server_inv s' \<and> handle_count s' = handle_count s \<and>
    server_abs s' = snd (pool_handle x y p (server_abs s))"
proof (cases "addr_map s (hndl p)")
  case None
  then show ?thesis using assms
    by (simp add: handle_write_def contains_key_def pool_handle_def server_abs_absent)
next
  case (Some a)
  with assms(1) obtain n where n: "hndl_n_pages s (hndl p) = Some n"
    by (auto elim: server_inv_region)
  show ?thesis
  proof (cases "offset p < n")
    case True
    then have lt: "unat (offset p) < unat n" by (simp add: word_less_nat_alt)
    obtain m' where m': "server_write (hndl p) p s = Inr (0, s\<lparr>mem := m'\<rparr>)"
      "store (mem s) (a + of_nat (unat (offset p) * 4096)) (data p) = Some m'"
      using server_write_effect [OF assms(1) Some n assms(2,3) True] .
    have "server_inv (s\<lparr>mem := m'\<rparr>)"
      using assms(1) store_mapped [OF m'(2)] by (rule server_inv_mem)
    moreover have "server_abs (s\<lparr>mem := m'\<rparr>) =
      (server_abs s)(hndl p \<mapsto> (map (page_at (mem s) a) [0..<unat n])[unat (offset p) := data p])"
      using assms(3) by (intro server_abs_store [OF assms(1) Some n lt m'(2)])
        (simp add: packet_ok_def)
    ultimately show ?thesis using assms(4) Some m'(1) lt
      by (simp add: handle_write_def contains_key_def pool_handle_def server_abs_Some [OF Some n])
  next
    case False
    then show ?thesis using assms Some n
      by (simp add: handle_write_def contains_key_def pool_handle_def server_abs_Some
          server_write_def accessor_defs word_less_nat_alt word_le_nat_alt)
  qed
qed

subsection \<open>Allocating\<close>

lemma pages_cong:
  assumes "\<And>t. t < n * 4096 \<Longrightarrow> m' (a + of_nat t) = m (a + of_nat t)"
  shows "map (page_at m' a) [0..<n] = map (page_at m a) [0..<n]"
proof (rule map_cong)
  fix i assume "i \<in> set [0..<n]"
  then have "m' (a + of_nat (i * 4096 + t)) = m (a + of_nat (i * 4096 + t))" if "t < 4096" for t
    by (intro assms cell_in_page that) simp
  then show "page_at m' a i = page_at m a i"
    by (simp add: page_at_def del: of_nat_add of_nat_mult)
qed simp

lemma pages_zero:
  assumes "\<And>t. t < n * 4096 \<Longrightarrow> m (a + of_nat t) = Some 0"
  shows "map (page_at m a) [0..<n] = replicate n zero_page"
proof -
  have "page_at m a i = zero_page" if "i < n" for i
  proof -
    have "m (a + of_nat (i * 4096 + t)) = Some 0" if "t < 4096" for t
      by (intro assms cell_in_page that \<open>i < n\<close>)
    then show ?thesis
      by (auto simp: page_at_def zero_page_def intro!: nth_equalityI
          simp del: of_nat_add of_nat_mult)
  qed
  then show ?thesis by (auto intro!: nth_equalityI)
qed

definition alloc_choice :: "kernel \<Rightarrow> packet \<Rightarrow> server_proc \<Rightarrow> handle option" where
  "alloc_choice k p s =
     (case sys_mmap k (mem s) (ucast (npages p * psize p)) of
        None \<Rightarrow> None
      | Some _ \<Rightarrow> Some (ucast (handle_count s)))"

definition free_choice :: "kernel \<Rightarrow> packet \<Rightarrow> server_proc \<Rightarrow> bool" where
  "free_choice k p s =
     (case (addr_map s (hndl p), hndl_n_pages s (hndl p)) of
        (Some a, Some n) \<Rightarrow> munmap_ok k (mem s) a (ucast (n * psize p))
      | _ \<Rightarrow> False)"

abbreviation with_region :: "handle \<Rightarrow> ul \<Rightarrow> u32 \<Rightarrow> memory \<Rightarrow> server_proc \<Rightarrow> server_proc" where
  "with_region h a n m' s \<equiv>
     s\<lparr>handle_count := handle_count s + 1, addr_map := (addr_map s)(h \<mapsto> a),
       hndl_n_pages := (hndl_n_pages s)(h \<mapsto> n), mem := m'\<rparr>"

lemma server_alloc_eq:
  "server_alloc k np ps s =
     (case sys_mmap k (mem s) (ucast (np * ps)) of
        None \<Rightarrow> (- 1, s)
      | Some (a, m') \<Rightarrow>
          (ucast (handle_count s), with_region (ucast (handle_count s)) a np m' s))"
  by (simp add: server_alloc_def accessor_defs Let_def split: option.splits prod.splits)

lemma server_inv_fresh: "server_inv s \<Longrightarrow> addr_map s (ucast (handle_count s)) = None"
  by (auto simp: server_inv_def dest!: bspec [of _ _ "ucast (handle_count s)"])

lemma region_cell_mapped:
  assumes "server_inv s" "addr_map s h = Some a" "t < region_len s h"
  shows "mem s (a + of_nat t) \<noteq> None"
  using assms unfolding server_inv_def mapped_def by blast

lemma with_region_disjoint:
  assumes disj: "regions_disjoint s"
    and sep: "\<And>h b t. addr_map s h = Some b \<Longrightarrow> t < region_len s h \<Longrightarrow>
      \<not> in_range a (unat np * 4096) (b + of_nat t)"
  shows "regions_disjoint (with_region h0 a np m' s)"
proof -
  let ?s = "with_region h0 a np m' s"
  have rl: "region_len ?s h = (if h = h0 then unat np * 4096 else region_len s h)" for h
    by (simp add: region_len_def)
  have new_old: "a + of_nat t \<noteq> b + of_nat u"
    if "t < unat np * 4096" "addr_map s h = Some b" "u < region_len s h" for t b u h
  proof
    assume "a + of_nat t = b + of_nat u"
    moreover have "t < 2 ^ 64" by (rule less_trans [OF that(1) unat_pages_lt])
    ultimately have "in_range a (unat np * 4096) (b + of_nat u)"
      using that(1) by (metis in_range_of_nat)
    then show False using sep that(2,3) by blast
  qed
  show ?thesis
    unfolding regions_disjoint_def
  proof (intro allI impI)
    fix h h' b b' t t'
    assume A: "addr_map ?s h = Some b" "addr_map ?s h' = Some b'"
      "t < region_len ?s h" "t' < region_len ?s h'" "b + of_nat t = b' + of_nat t'"
    show "h = h'"
      using A new_old [of t h' b' t'] new_old [of t' h b t] disj
      unfolding rl regions_disjoint_def by (cases "h = h0"; cases "h' = h0") auto
  qed
qed

lemma with_region_inv:
  assumes k: "kernel_ok k" and inv: "server_inv s"
    and mm: "sys_mmap k (mem s) (ucast (np * 4096)) = Some (a, m')"
    and np: "unat np * 4096 < 2 ^ 32" and hc: "handle_count s \<noteq> - 1"
  shows "server_inv (with_region (ucast (handle_count s)) a np m' s)"
proof -
  let ?h = "ucast (handle_count s) :: handle" and ?s = "with_region (ucast (handle_count s)) a np m' s"
  have len: "unat (ucast (np * 4096) :: ul) = unat np * 4096"
    using np by (simp add: unat_mult_u32)
  have fresh: "addr_map s ?h = None" "hndl_n_pages s ?h = None"
    using inv server_inv_fresh server_inv_None by auto
  have old: "m' (b + of_nat t) \<noteq> None" "\<not> in_range a (unat np * 4096) (b + of_nat t)"
    if "addr_map s h = Some b" "t < region_len s h" for h b t
    using sys_mmap_frame [OF k mm region_cell_mapped [OF inv that]]
      region_cell_mapped [OF inv that] len by simp_all
  have count: "unat (handle_count s + 1) = Suc (unat (handle_count s))"
    using hc by (simp add: unat_inc_u32)
  have rl: "region_len ?s h = (if h = ?h then unat np * 4096 else region_len s h)" for h
    by (simp add: region_len_def)
  have "dom (addr_map ?s) = dom (hndl_n_pages ?s)"
    using inv by (simp add: server_inv_def)
  moreover have "\<forall>h \<in> dom (addr_map ?s). unat h < unat (handle_count ?s)"
    using inv by (auto simp: server_inv_def count less_Suc_eq)
  moreover have "np \<noteq> 0" using kernel_okD(2) [OF k mm] by auto
  then have "\<forall>h n. hndl_n_pages ?s h = Some n \<longrightarrow> n \<noteq> 0 \<and> unat n * 4096 < 2 ^ 32"
    using inv np by (auto simp: server_inv_def)
  moreover have "\<forall>h b. addr_map ?s h = Some b \<longrightarrow> mapped (mem ?s) b (region_len ?s h)"
    using old sys_mmap_mapped [OF k mm] len unfolding mapped_def rl by auto
  moreover have "regions_disjoint ?s"
    using inv old(2) by (intro with_region_disjoint) (auto simp: server_inv_def)
  ultimately show ?thesis unfolding server_inv_def by blast
qed

lemma with_region_abs:
  assumes k: "kernel_ok k" and inv: "server_inv s"
    and mm: "sys_mmap k (mem s) (ucast (np * 4096)) = Some (a, m')"
    and np: "unat np * 4096 < 2 ^ 32"
  shows "server_abs (with_region h a np m' s) =
    (server_abs s)(h \<mapsto> replicate (unat np) zero_page)"
proof
  fix h'
  have len: "unat (ucast (np * 4096) :: ul) = unat np * 4096"
    using np by (simp add: unat_mult_u32)
  have new: "map (page_at m' a) [0..<unat np] = replicate (unat np) zero_page"
    using sys_mmap_mapped [OF k mm] len by (intro pages_zero) simp
  have old: "map (page_at m' b) [0..<unat n] = map (page_at (mem s) b) [0..<unat n]"
    if "addr_map s h' = Some b" "hndl_n_pages s h' = Some n" for b n
    using sys_mmap_frame(1) [OF k mm] region_cell_mapped [OF inv that(1)] that(2)
    by (intro pages_cong) simp
  show "server_abs (with_region h a np m' s) h' =
    ((server_abs s)(h \<mapsto> replicate (unat np) zero_page)) h'"
    using new old by (auto simp: server_abs_def split: option.splits)
qed

lemma handle_alloc_refines:
  assumes "kernel_ok k" "server_inv s" "psize p = 4096" "action p = 0"
    and "unat (npages p) * 4096 < 2 ^ 32" "handle_count s \<noteq> - 1"
  shows "\<exists>s'. handle_alloc k p s = (fst (pool_handle (alloc_choice k p s) y p (server_abs s)), s') \<and>
    server_inv s' \<and>
    server_abs s' = snd (pool_handle (alloc_choice k p s) y p (server_abs s)) \<and>
    unat (handle_count s') \<le> Suc (unat (handle_count s))"
proof (cases "sys_mmap k (mem s) (ucast (npages p * 4096))")
  case None
  then show ?thesis using assms
    by (simp add: handle_alloc_def server_alloc_eq pool_handle_def alloc_choice_def)
next
  case (Some am)
  obtain a m' where am: "am = (a, m')" by force
  note mm = Some [unfolded am]
  have "unat (handle_count s + 1) = Suc (unat (handle_count s))"
    using assms(6) by (simp add: unat_inc_u32)
  then show ?thesis
    using mm assms with_region_inv [OF assms(1,2) mm assms(5,6)]
      with_region_abs [OF assms(1,2) mm assms(5), of "ucast (handle_count s)"]
    by (simp add: handle_alloc_def server_alloc_eq pool_handle_def alloc_choice_def)
qed

subsection \<open>Freeing\<close>

abbreviation without_region :: "handle \<Rightarrow> memory \<Rightarrow> server_proc \<Rightarrow> server_proc" where
  "without_region h m' s \<equiv>
     s\<lparr>addr_map := (addr_map s)(h := None), hndl_n_pages := (hndl_n_pages s)(h := None), mem := m'\<rparr>"

lemma without_region:
  assumes inv: "server_inv s" and h: "addr_map s h = Some a" "hndl_n_pages s h = Some n"
    and out: "\<And>x. \<not> in_range a (unat n * 4096) x \<Longrightarrow> m' x = mem s x"
  shows "server_inv (without_region h m' s)"
    and "server_abs (without_region h m' s) = (server_abs s)(h := None)"
proof -
  let ?s = "without_region h m' s"
  have frame: "m' (b + of_nat t) = mem s (b + of_nat t)"
    if "addr_map s h' = Some b" "t < region_len s h'" "h' \<noteq> h" for h' b t
  proof (rule out, rule notI)
    assume "in_range a (unat n * 4096) (b + of_nat t)"
    then obtain u where "u < unat n * 4096" "b + of_nat t = a + of_nat u"
      by (rule in_range_obtain)
    then show False
      using inv that h unfolding server_inv_def regions_disjoint_def by (metis region_len_Some)
  qed
  have rl: "region_len ?s h' = (if h' = h then 0 else region_len s h')" for h'
    by (simp add: region_len_def)
  have "mapped m' b (region_len s h')" if "addr_map s h' = Some b" "h' \<noteq> h" for h' b
    using frame [OF that(1) _ that(2)] region_cell_mapped [OF inv that(1)]
    by (simp add: mapped_def)
  moreover have "regions_disjoint ?s"
    using inv unfolding server_inv_def regions_disjoint_def rl by (auto split: if_splits)
  ultimately show "server_inv ?s"
    using inv unfolding server_inv_def rl by auto
  show "server_abs ?s = (server_abs s)(h := None)"
  proof
    fix h'
    have "map (page_at m' b) [0..<unat n'] = map (page_at (mem s) b) [0..<unat n']"
      if "addr_map s h' = Some b" "hndl_n_pages s h' = Some n'" "h' \<noteq> h" for b n'
      using frame [OF that(1) _ that(3)] that(2) by (intro pages_cong) simp
    then show "server_abs ?s h' = ((server_abs s)(h := None)) h'"
      by (auto simp: server_abs_def split: option.splits)
  qed
qed

lemma server_free_eq:
  assumes k: "kernel_ok k" and inv: "server_inv s"
    and h: "addr_map s h = Some a" "hndl_n_pages s h = Some n"
  shows "server_free k h 4096 s =
    (if munmap_ok k (mem s) a (ucast (n * 4096))
     then (0, without_region h
       (\<lambda>x. if in_range a (unat n * 4096) x then None else mem s x) s)
     else (- 1, s))"
proof -
  have n: "n \<noteq> 0" "unat n * 4096 < 2 ^ 32" using inv h by (auto elim: server_inv_region)
  then have "unat (ucast (n * 4096) :: ul) = unat n * 4096" by (simp add: unat_mult_u32)
  then have "round_up (kpage k) (unat (ucast (n * 4096) :: ul)) = unat n * 4096"
    using k by (simp add: kernel_ok_def round_up_multiple)
  then show ?thesis
    using n h by (simp add: server_free_def accessor_defs sys_munmap_def Let_def)
qed

lemma handle_free_refines:
  assumes k: "kernel_ok k" and inv: "server_inv s" and p: "psize p = 4096" "action p = 3"
  shows "\<exists>s'. handle_free k p s = (fst (pool_handle x (free_choice k p s) p (server_abs s)), s') \<and>
    server_inv s' \<and> handle_count s' = handle_count s \<and>
    server_abs s' = snd (pool_handle x (free_choice k p s) p (server_abs s))"
proof (cases "addr_map s (hndl p)")
  case None
  then show ?thesis using inv p
    by (simp add: handle_free_def contains_key_def pool_handle_def server_abs_absent)
next
  case (Some a)
  with inv obtain n where n: "hndl_n_pages s (hndl p) = Some n"
    by (auto elim: server_inv_region)
  let ?m = "\<lambda>x. if in_range a (unat n * 4096) x then None else mem s x"
  show ?thesis
    using inv p Some n server_free_eq [OF k inv Some n]
      without_region [OF inv Some n, of ?m]
    by (simp add: handle_free_def contains_key_def pool_handle_def server_abs_Some free_choice_def)
qed

subsection \<open>Every request\<close>

lemma server_handle_refines:
  assumes k: "kernel_ok k" and inv: "server_inv s" and req: "request_ok p"
    and hc: "action p = 0 \<longrightarrow> handle_count s \<noteq> - 1"
  shows "\<exists>p' s'. server_handle k p s = Inr (p', s') \<and> server_inv s' \<and>
    (p', server_abs s') =
      pool_handle (alloc_choice k p s) (free_choice k p s) p (server_abs s) \<and>
    unat (handle_count s') \<le> unat (handle_count s) + (if action p = 0 then 1 else 0)"
proof -
  note req = req [unfolded request_ok_def]
  let ?x = "alloc_choice k p s" and ?y = "free_choice k p s"
  consider "action p = 0" | "action p = 1" | "action p = 2" | "action p = 3"
    | "action p \<notin> {0, 1, 2, 3}" by blast
  then show ?thesis
  proof cases
    case 1
    then show ?thesis
      using handle_alloc_refines [OF k inv, of p ?y] req hc
      by (auto simp: server_handle_def prod_eq_iff)
  next
    case 2
    then show ?thesis
      using handle_read_refines [OF inv, of p ?x ?y] req inv
      by (auto simp: server_handle_def prod_eq_iff)
  next
    case 3
    then show ?thesis
      using handle_write_refines [OF inv, of p ?x ?y] req
      by (fastforce simp: server_handle_def prod_eq_iff)
  next
    case 4
    then show ?thesis
      using handle_free_refines [OF k inv, of p ?x] req
      by (fastforce simp: server_handle_def prod_eq_iff)
  next
    case 5
    then show ?thesis using inv by (auto simp: server_handle_def pool_handle_def)
  qed
qed

subsection \<open>The server fulfils the contract\<close>

lemma server_inv_new [simp]: "server_inv (new_server m)"
  by (simp add: server_inv_def new_server_def regions_disjoint_def)

lemma server_abs_new [simp]: "server_abs (new_server m) = Map.empty"
  by (simp add: server_abs_def new_server_def fun_eq_iff)

definition handles_left :: "'a server_scheme \<Rightarrow> nat" where
  "handles_left s = 2 ^ 32 - 1 - unat (handle_count s)"

lemma handles_left_pos: "0 < handles_left s \<longleftrightarrow> handle_count s \<noteq> - 1"
proof -
  have "unat (- 1 :: u32) = 2 ^ 32 - 1"
    by (simp add: unsigned_minus_1_eq_mask mask_eq_exp_minus_1)
  then have "handle_count s = - 1 \<longleftrightarrow> unat (handle_count s) = 2 ^ 32 - 1"
    by (metis word_unat_eq_iff)
  moreover have "unat (handle_count s) \<le> 2 ^ 32 - 1"
    using less_eq_Suc_le [of "unat (handle_count s)" 4294967296] by simp
  ultimately show ?thesis by (auto simp: handles_left_def)
qed

lemma server_abs_page_length:
  "server_abs s h = Some pages \<Longrightarrow> pg \<in> set pages \<Longrightarrow> length pg = 4096"
  by (auto simp: server_abs_def split: option.splits)

interpretation srv: page_pool "server_handle k" "\<lambda>s. kernel_ok k \<and> server_inv s" server_abs handles_left
  for k
proof
  fix s p
  assume inv: "kernel_ok k \<and> server_inv s" and req: "request_ok p"
    and room: "action p = 0 \<longrightarrow> 0 < handles_left s"
  then obtain p' s' where st: "server_handle k p s = Inr (p', s')" "server_inv s'"
    "(p', server_abs s') = pool_handle (alloc_choice k p s) (free_choice k p s) p (server_abs s)"
    "unat (handle_count s') \<le> unat (handle_count s) + (if action p = 0 then 1 else 0)"
    using server_handle_refines [of k s p] by (auto simp: handles_left_pos)
  moreover have "\<forall>h. alloc_choice k p s = Some h \<longrightarrow> server_abs s h = None"
    using inv by (auto simp: alloc_choice_def server_abs_absent server_inv_fresh split: option.splits)
  moreover have "handles_left s \<le> handles_left s' + (if action p = 0 then 1 else 0)"
    using st(4) by (simp add: handles_left_def split: if_splits)
  ultimately show "\<exists>x y p' s'. server_handle k p s = Inr (p', s') \<and> (kernel_ok k \<and> server_inv s') \<and>
        (\<forall>h. x = Some h \<longrightarrow> server_abs s h = None) \<and>
        (p', server_abs s') = pool_handle x y p (server_abs s) \<and>
        handles_left s \<le> handles_left s' + (if action p = 0 then 1 else 0)"
    using inv by blast
qed (rule server_abs_page_length)

subsection \<open>A concrete server\<close>

text \<open>A server that has allocated one region of two pages, under handle 0.\<close>

abbreviation demo_kernel :: kernel where
  "demo_kernel \<equiv> slot_kernel [65536, 131072]"

definition demo_server :: server_proc where
  "demo_server = snd (server_alloc demo_kernel 2 4096 (new_server Map.empty))"

lemma demo_mmap:
  "sys_mmap demo_kernel (mem (new_server Map.empty)) (ucast ((2 :: u32) * 4096)) =
     Some (65536, \<lambda>x. if in_range 65536 8192 x then Some 0 else None)"
proof -
  have "slot_free Map.empty 8192 65536" by (simp add: slot_free_def round_up_def)
  then show ?thesis
    by (simp add: sys_mmap_def slot_kernel_def new_server_def round_up_def)
qed

lemma demo_server_eq:
  "demo_server =
     \<lparr>handle_count = 1, addr_map = [0 \<mapsto> 65536], hndl_n_pages = [0 \<mapsto> 2],
      mem = (\<lambda>x. if in_range 65536 8192 x then Some 0 else None)\<rparr>"
  by (simp add: demo_server_def server_alloc_eq demo_mmap [simplified])

lemma demo_server_facts [simp]:
  "server_inv demo_server" "server_abs demo_server = [0 \<mapsto> [zero_page, zero_page]]"
  "handles_left demo_server = 4294967294"
proof -
  note mm = demo_mmap
  have eq: "demo_server = with_region (ucast (handle_count (new_server Map.empty))) 65536 2
      (\<lambda>x. if in_range 65536 8192 x then Some 0 else None) (new_server Map.empty)"
    by (simp add: demo_server_eq new_server_def)
  show "server_inv demo_server" unfolding eq
    by (rule with_region_inv [OF _ _ mm]) simp_all
  have "replicate 2 zero_page = [zero_page, zero_page]" by (simp add: numeral_2_eq_2)
  then show "server_abs demo_server = [0 \<mapsto> [zero_page, zero_page]]" unfolding eq
    by (subst with_region_abs [OF _ _ mm]) simp_all
  show "handles_left demo_server = 4294967294"
    by (simp add: handles_left_def demo_server_eq)
qed

lemma demo_server_sel [simp]:
  "handle_count demo_server = 1" "addr_map demo_server = [0 \<mapsto> 65536]"
  "hndl_n_pages demo_server = [0 \<mapsto> 2]"
  "mem demo_server = (\<lambda>x. if in_range 65536 8192 x then Some 0 else None)"
  by (simp_all add: demo_server_eq)

text \<open>The same server after a second allocation: one page under handle 1.\<close>

lemma demo_mmap2:
  "sys_mmap demo_kernel (mem demo_server) (ucast ((1 :: u32) * 4096)) =
     Some (131072, \<lambda>x. if in_range 131072 4096 x then Some 0 else mem demo_server x)"
proof -
  have "\<not> in_range 65536 8192 (131072 + of_nat t)" if "t < 4096" for t
  proof -
    have eq: "(131072 :: ul) + of_nat t = 65536 + of_nat (65536 + t)" by simp
    show ?thesis unfolding eq by (subst in_range_of_nat) (use that in simp_all)
  qed
  then have "slot_free (mem demo_server) 4096 131072"
    by (simp add: slot_free_def round_up_def)
  moreover have "\<not> slot_free (mem demo_server) 4096 65536"
    by (auto simp: slot_free_def round_up_def in_range_def intro!: exI [of _ 0])
  ultimately show ?thesis
    by (simp add: sys_mmap_def slot_kernel_def round_up_def cong: if_cong)
qed

definition demo_server2 :: server_proc where
  "demo_server2 = snd (server_alloc demo_kernel 1 4096 demo_server)"

lemma demo_server2_eq:
  "demo_server2 = with_region (ucast (handle_count demo_server)) 131072 1
     (\<lambda>x. if in_range 131072 4096 x then Some 0 else mem demo_server x) demo_server"
  using demo_mmap2 by (simp add: demo_server2_def server_alloc_eq)

lemma demo_server2_facts [simp]:
  "server_inv demo_server2"
  "server_abs demo_server2 = [0 \<mapsto> [zero_page, zero_page], 1 \<mapsto> [zero_page]]"
  "addr_map demo_server2 = [0 \<mapsto> 65536, 1 \<mapsto> 131072]"
  "hndl_n_pages demo_server2 = [0 \<mapsto> 2, 1 \<mapsto> 1]"
proof -
  show "server_inv demo_server2" unfolding demo_server2_eq
    by (rule with_region_inv [OF _ _ demo_mmap2]) simp_all
  show "server_abs demo_server2 = [0 \<mapsto> [zero_page, zero_page], 1 \<mapsto> [zero_page]]"
    unfolding demo_server2_eq by (subst with_region_abs [OF _ _ demo_mmap2]) simp_all
qed (simp_all add: demo_server2_eq)

end
