(* ===== verification/RMP_Server_Props.thy ===== *)
theory RMP_Server_Props
  imports RMP_Server_Spec
begin

text \<open>
  The properties of the server: refinement of the pool over whole sessions, what reads return,
  the error branches, the life of a handle, and what happens outside the requests the
  invariant covers (a size product that wraps at 32 bits, a page size chosen by the client).
\<close>

subsection \<open>The handle counter\<close>

lemma server_handle_count:
  assumes "server_handle k p s = Inr (p', s')"
  shows "handle_count s' = handle_count s \<or> action p = 0 \<and> handle_count s' = handle_count s + 1"
  using assms
  by (auto simp: server_handle_def handle_alloc_def handle_read_def handle_write_def
      handle_free_def server_alloc_eq server_read_def server_write_def server_free_def
      accessor_defs Let_def split: if_splits option.splits prod.splits)

lemma server_handle_count_mono:
  assumes "server_handle k p s = Inr (p', s')" "action p = 0 \<longrightarrow> handle_count s \<noteq> - 1"
  shows "unat (handle_count s) \<le> unat (handle_count s')"
    and "unat (handle_count s') \<le> unat (handle_count s) + (if action p = 0 then 1 else 0)"
  using server_handle_count [OF assms(1)] assms(2) by (auto simp: unat_inc_u32)

lemma server_handle_dead:
  assumes inv: "kernel_ok k" "server_inv s" "request_ok p" "action p = 0 \<longrightarrow> handle_count s \<noteq> - 1"
    and h: "unat h < unat (handle_count s)" "server_abs s h = None"
    and st: "server_handle k p s = Inr (p', s')"
  shows "server_inv s'" "unat h < unat (handle_count s')" "server_abs s' h = None"
    "handles_left s \<le> handles_left s' + (if action p = 0 then 1 else 0)"
proof -
  have "server_inv s' \<and> (p', server_abs s') =
      pool_handle (alloc_choice k p s) (free_choice k p s) p (server_abs s) \<and>
      unat (handle_count s') \<le> unat (handle_count s) + (if action p = 0 then 1 else 0)"
    using server_handle_refines [OF inv] st by auto
  moreover have "alloc_choice k p s \<noteq> Some h"
    using h(1) by (auto simp: alloc_choice_def split: option.splits)
  ultimately show "server_inv s'" "server_abs s' h = None"
    "handles_left s \<le> handles_left s' + (if action p = 0 then 1 else 0)"
    using h(2) by (auto simp: pool_handle_def handles_left_def split: option.splits if_splits)
  show "unat h < unat (handle_count s')"
    using h(1) server_handle_count_mono(1) [OF st inv(4)] by simp
qed

lemma session_dead:
  assumes "kernel_ok k" "server_inv s" "\<forall>p \<in> set ps. request_ok p" "allocs ps \<le> handles_left s"
    and "unat h < unat (handle_count s)" "server_abs s h = None"
  shows "\<exists>rs s'. rpc_session (server_handle k) ps s = Inr (rs, s') \<and> server_inv s' \<and>
    server_abs s' h = None"
  using assms
proof (induction ps arbitrary: s)
  case Nil
  then show ?case by simp
next
  case (Cons p ps)
  have ok: "request_ok p" "action p = 0 \<longrightarrow> handle_count s \<noteq> - 1"
    using Cons.prems by (auto simp flip: handles_left_pos)
  then obtain p' s1 where st: "server_handle k p s = Inr (p', s1)"
    using server_handle_refines [OF Cons.prems(1,2)] by blast
  note dead = server_handle_dead [OF Cons.prems(1,2) ok Cons.prems(5,6) st]
  have "allocs ps \<le> handles_left s1" using dead(4) Cons.prems(4) by (simp split: if_splits)
  then obtain rs s' where "rpc_session (server_handle k) ps s1 = Inr (rs, s')" "server_inv s'"
    "server_abs s' h = None"
    using Cons.IH [OF Cons.prems(1) dead(1) _ _ dead(2,3)] Cons.prems(3) by auto
  then show ?case using st by simp
qed

subsection \<open>Properties of the server\<close>

text \<open>
  C1. Every session of well-formed requests on a new server is answered (no request kills the
  process), keeps the server's invariant, and is a run of the abstract pool: each answer, error
  codes included, is the pool's answer, and the final state represents the final pool. The
  session may make fewer than 2^32 allocations (the handle counter has 32 bits).
\<close>

theorem server_session_refines_pool:
  assumes "kernel_ok k" "\<forall>p \<in> set ps. request_ok p" "allocs ps < 2 ^ 32"
  shows "\<exists>rs s'. rpc_session (server_handle k) ps (new_server m) = Inr (rs, s') \<and>
    server_inv s' \<and> pool_run Map.empty ps rs (server_abs s')"
proof -
  have "allocs ps \<le> handles_left (new_server m)"
    using assms(3) by (simp add: handles_left_def new_server_def)
  then show ?thesis
    using srv.session_refines [of k "new_server m" ps] assms(1,2) by auto
qed

theorem server_session_refines_pool_witness:
  "\<exists>rs s'. rpc_session (server_handle demo_kernel)
      [sample_packet 0 0 3 0 0, sample_packet 2 0 0 1 7, sample_packet 1 0 0 1 0, sample_packet 9 0 0 0 0]
      (new_server Map.empty) = Inr (rs, s') \<and> server_inv s' \<and>
    pool_run Map.empty
      [sample_packet 0 0 3 0 0, sample_packet 2 0 0 1 7, sample_packet 1 0 0 1 0, sample_packet 9 0 0 0 0]
      rs (server_abs s')"
  by (rule server_session_refines_pool) (simp_all add: request_ok_sample)

text \<open>
  C2. Read-your-writes across a session: after a write to page \<open>offset w\<close> of a live region, any
  requests that neither write that page nor free that region (whatever they do to other pages,
  other regions, or by allocating new ones), a read of the page is answered with the data
  written.
\<close>

theorem server_read_back:
  assumes "kernel_ok k" "server_inv s"
    and "server_abs s (hndl w) = Some pages" "unat (offset w) < length pages"
    and "request_ok w" "action w = 2"
    and "\<forall>q \<in> set mid. request_ok q \<and> spares (hndl w) (unat (offset w)) q"
    and "allocs mid \<le> handles_left s"
    and "request_ok r" "action r = 1" "hndl r = hndl w" "offset r = offset w"
  shows "\<exists>rs s'. rpc_session (server_handle k) (w # mid @ [r]) s =
    Inr (rs @ [r\<lparr>data := data w\<rparr>], s') \<and> length rs = Suc (length mid)"
  using assms by (intro srv.read_back [of k]) auto

theorem server_read_back_witness:
  "\<exists>rs s'. rpc_session (server_handle demo_kernel)
      (sample_packet 2 0 0 1 7 # [sample_packet 0 0 1 0 0, sample_packet 2 0 0 0 9] @
        [sample_packet 1 0 0 1 0]) demo_server =
    Inr (rs @ [(sample_packet 1 0 0 1 0)\<lparr>data := data (sample_packet 2 0 0 1 7)\<rparr>], s') \<and>
    length rs = Suc (length [sample_packet 0 0 1 0 0, sample_packet 2 0 0 0 9])"
  by (rule server_read_back [where pages = "[zero_page, zero_page]"])
    (simp_all add: request_ok_sample spares_def)

text \<open>
  C3. Fresh memory is zero: after an allocation the server reports as successful, a page of the
  new region that no later request has written reads as 4096 zero bytes, whatever earlier
  regions held.
\<close>

theorem server_fresh_pages_zero:
  assumes "kernel_ok k" "server_inv s" "request_ok a" "action a = 0" "error a = 0"
    and "server_handle k a s = Inr (a', s1)" "error a' = 0"
    and "\<forall>q \<in> set mid. request_ok q \<and> spares (hndl a') (unat (offset r)) q"
    and "Suc (allocs mid) \<le> handles_left s"
    and "request_ok r" "action r = 1" "hndl r = hndl a'" "unat (offset r) < unat (npages a)"
  shows "\<exists>rs s'. rpc_session (server_handle k) (mid @ [r]) s1 =
    Inr (rs @ [r\<lparr>data := zero_page\<rparr>], s')"
  using assms by (intro srv.fresh_zero [of k s a]) (auto simp: ALLOC_FAILED_def)

lemma demo_alloc:
  "server_handle demo_kernel (sample_packet 0 5 2 0 0) (new_server Map.empty) =
     Inr ((sample_packet 0 5 2 0 0)\<lparr>hndl := 0\<rparr>, demo_server)"
  using demo_mmap
  by (simp add: server_handle_def handle_alloc_def server_alloc_eq demo_server_eq)

theorem server_fresh_pages_zero_witness:
  "\<exists>rs s'. rpc_session (server_handle demo_kernel)
      ([sample_packet 2 0 0 0 9] @ [sample_packet 1 0 0 1 7]) demo_server =
    Inr (rs @ [(sample_packet 1 0 0 1 7)\<lparr>data := zero_page\<rparr>], s')"
  by (rule server_fresh_pages_zero [OF _ _ _ _ _ demo_alloc])
    (simp_all add: request_ok_sample spares_def handles_left_def)

text \<open>
  C4. A request on a handle that is not live is refused with INVALID_HANDLE and changes
  nothing, whatever its other fields are.
\<close>

theorem server_rejects_unknown_handle:
  assumes "addr_map s (hndl p) = None" "action p \<in> {1, 2, 3}"
  shows "server_handle k p s = Inr (p\<lparr>error := INVALID_HANDLE\<rparr>, s)"
  using assms
  by (auto simp: server_handle_def handle_read_def handle_write_def handle_free_def contains_key_def)

theorem server_rejects_unknown_handle_witness:
  "server_handle demo_kernel (sample_packet 1 0 0 0 0) (new_server Map.empty) =
     Inr ((sample_packet 1 0 0 0 0)\<lparr>error := INVALID_HANDLE\<rparr>, new_server Map.empty)"
  by (rule server_rejects_unknown_handle) (simp_all add: new_server_def)

text \<open>
  C5. The bounds check: a read or write at an offset at or past the number of pages of a live
  region is refused with READ_FAILED or WRITE_FAILED, touches no memory and changes no state,
  whatever page size the request names.
\<close>

theorem server_bounds_check:
  assumes "server_inv s" "hndl_n_pages s (hndl p) = Some n" "n \<le> offset p"
  shows "(action p = 1 \<longrightarrow> server_handle k p s = Inr (p\<lparr>error := READ_FAILED\<rparr>, s)) \<and>
    (action p = 2 \<longrightarrow> server_handle k p s = Inr (p\<lparr>error := WRITE_FAILED\<rparr>, s))"
proof -
  obtain a where "addr_map s (hndl p) = Some a"
    using assms(1,2) server_inv_None [of s "hndl p"] by fastforce
  then show ?thesis
    using assms(2,3)
    by (simp add: server_handle_def handle_read_def handle_write_def server_read_def
        server_write_def accessor_defs)
qed

theorem server_bounds_check_witness:
  "server_handle demo_kernel (sample_packet 1 0 0 2 0) demo_server =
     Inr ((sample_packet 1 0 0 2 0)\<lparr>error := READ_FAILED\<rparr>, demo_server) \<and>
   server_handle demo_kernel (sample_packet 2 0 0 2 0) demo_server =
     Inr ((sample_packet 2 0 0 2 0)\<lparr>error := WRITE_FAILED\<rparr>, demo_server)"
  using server_bounds_check [of demo_server "sample_packet 1 0 0 2 0" 2 demo_kernel]
    server_bounds_check [of demo_server "sample_packet 2 0 0 2 0" 2 demo_kernel]
  by simp

text \<open>
  C6. Use after free is refused: once a region has been freed successfully, every later read,
  write or free of its handle in the session is answered INVALID_HANDLE, because no allocation
  ever hands the same handle out again (fewer than 2^32 allocations).
\<close>

theorem server_use_after_free_rejected:
  assumes "kernel_ok k" "server_inv s" "server_abs s (hndl f) \<noteq> None"
    and "request_ok f" "action f = 3" "error f = 0"
    and "server_handle k f s = Inr (f', s1)" "error f' = 0"
    and "\<forall>q \<in> set mid. request_ok q" "allocs mid \<le> handles_left s"
    and "action u \<in> {1, 2, 3}" "hndl u = hndl f"
  shows "\<exists>rs s'. rpc_session (server_handle k) (mid @ [u]) s1 =
    Inr (rs @ [u\<lparr>error := INVALID_HANDLE\<rparr>], s')"
proof -
  have "action f = 0 \<longrightarrow> handle_count s \<noteq> - 1" using assms(5) by simp
  from server_handle_refines [OF assms(1,2,4) this] assms(7)
  have s1: "server_inv s1" "(f', server_abs s1) =
      pool_handle (alloc_choice k f s) (free_choice k f s) f (server_abs s)"
    by auto
  then have "server_abs s1 (hndl f) = None"
    using assms(3,5,8)
    by (auto simp: pool_handle_def FREE_FAILED_def split: if_splits option.splits)
  moreover have "handle_count s1 = handle_count s"
    using server_handle_count [OF assms(7)] assms(5) by simp
  moreover have "addr_map s (hndl f) \<noteq> None"
    using assms(2,3) by (simp add: server_abs_None)
  then have "unat (hndl f) < unat (handle_count s)"
    using assms(2) by (auto simp: server_inv_def)
  ultimately obtain rs s' where "rpc_session (server_handle k) mid s1 = Inr (rs, s')"
    "server_inv s'" "server_abs s' (hndl f) = None"
    using session_dead [OF assms(1) s1(1) assms(9), of "hndl f"] assms(10)
    by (auto simp: handles_left_def)
  moreover from this have "server_handle k u s' = Inr (u\<lparr>error := INVALID_HANDLE\<rparr>, s')"
    using assms(11,12) by (auto simp: server_handle_def handle_read_def handle_write_def
        handle_free_def contains_key_def server_abs_None)
  ultimately show ?thesis by (simp add: rpc_session_append)
qed

lemma demo_free:
  "server_handle demo_kernel (sample_packet 3 0 0 0 0) demo_server =
     Inr (sample_packet 3 0 0 0 0, without_region 0
       (\<lambda>x. if in_range 65536 (unat (2 :: u32) * 4096) x then None else mem demo_server x) demo_server)"
proof -
  have "server_free demo_kernel 0 4096 demo_server =
    (0, without_region 0
       (\<lambda>x. if in_range 65536 (unat (2 :: u32) * 4096) x then None else mem demo_server x) demo_server)"
    by (subst server_free_eq [of _ _ _ 65536 2])
      (simp_all, simp_all add: demo_server_eq slot_kernel_def)
  then show ?thesis
    by (simp add: server_handle_def handle_free_def contains_key_def)
qed

theorem server_use_after_free_rejected_witness:
  "\<exists>rs s'. rpc_session (server_handle demo_kernel)
      ([sample_packet 0 0 1 0 0] @ [sample_packet 1 0 0 0 0])
      (without_region 0
       (\<lambda>x. if in_range 65536 (unat (2 :: u32) * 4096) x then None else mem demo_server x) demo_server) =
    Inr (rs @ [(sample_packet 1 0 0 0 0)\<lparr>error := INVALID_HANDLE\<rparr>], s')"
  by (rule server_use_after_free_rejected [OF _ _ _ _ _ _ demo_free])
    (simp_all add: request_ok_sample)

lemma server_handle_alloc_result:
  assumes "server_handle k p s = Inr (p', s')" "error p = 0"
  shows "action p' = action p"
    and "action p' = 0 \<Longrightarrow> error p' = 0 \<Longrightarrow>
      hndl p' = ucast (handle_count s) \<and> handle_count s' = handle_count s + 1"
  using assms
  by (auto simp: server_handle_def handle_alloc_def handle_read_def handle_write_def
      handle_free_def server_alloc_eq server_read_def server_write_def server_free_def
      accessor_defs Let_def error_codes split: if_splits option.splits prod.splits)

fun granted :: "packet list \<Rightarrow> handle list" where
  "granted [] = []"
| "granted (r # rs) = (if action r = 0 \<and> error r = 0 then hndl r # granted rs else granted rs)"

lemma granted_handles:
  assumes "rpc_session (server_handle k) ps s = Inr (rs, s')" "\<forall>p \<in> set ps. error p = 0"
    and "allocs ps \<le> handles_left s"
  shows "distinct (granted rs) \<and> (\<forall>h \<in> set (granted rs). unat (handle_count s) \<le> unat h)"
  using assms
proof (induction ps arbitrary: s rs)
  case Nil
  then show ?case by simp
next
  case (Cons p ps)
  then obtain p' s1 rs1 where st: "server_handle k p s = Inr (p', s1)"
    "rpc_session (server_handle k) ps s1 = Inr (rs1, s')" "rs = p' # rs1"
    by auto
  have hc: "action p = 0 \<longrightarrow> handle_count s \<noteq> - 1"
    using Cons.prems(3) by (auto simp flip: handles_left_pos)
  note mono = server_handle_count_mono [OF st(1) hc]
  note res = server_handle_alloc_result [OF st(1)]
  have "allocs ps \<le> handles_left s1"
    using mono(2) Cons.prems(3) by (auto simp: handles_left_def split: if_splits)
  then have IH: "distinct (granted rs1)" "\<forall>h \<in> set (granted rs1). unat (handle_count s1) \<le> unat h"
    using Cons.IH [OF st(2)] Cons.prems(2) by auto
  show ?case
  proof (cases "action p' = 0 \<and> error p' = 0")
    case True
    then have new: "hndl p' = ucast (handle_count s)" "handle_count s1 = handle_count s + 1"
      using res Cons.prems(2) by auto
    have "action p = 0" using res(1) True Cons.prems(2) by simp
    then have "unat (handle_count s1) = Suc (unat (handle_count s))"
      using new(2) hc by (simp add: unat_inc_u32)
    then have above: "\<forall>h \<in> set (granted rs1). Suc (unat (handle_count s)) \<le> unat h"
      using IH(2) by simp
    have "granted rs = ucast (handle_count s) # granted rs1"
      using True new(1) st(3) by simp
    moreover have "ucast (handle_count s) \<notin> set (granted rs1)"
      using bspec [OF above, of "ucast (handle_count s)"] by auto
    moreover have "\<forall>h \<in> set (granted rs1). unat (handle_count s) \<le> unat h"
      using above by (auto dest: Suc_leD)
    ultimately show ?thesis using IH(1) by simp
  next
    case False
    then have "granted rs = granted rs1" using st(3) by auto
    then show ?thesis using IH mono(1) by (metis order_trans)
  qed
qed

text \<open>
  C7. In a session with fewer allocations than handles left, the handles granted to successful
  allocations are pairwise different, and none of them was ever granted before the session.
\<close>

theorem server_handles_distinct:
  assumes "rpc_session (server_handle k) ps s = Inr (rs, s')" "\<forall>p \<in> set ps. error p = 0"
    and "allocs ps \<le> handles_left s" "server_inv s"
  shows "distinct (granted rs) \<and> (\<forall>h \<in> set (granted rs). addr_map s h = None)"
  using granted_handles [OF assms(1-3)] assms(4) by (auto simp: server_inv_def) force

lemma demo_alloc2:
  "server_handle demo_kernel (sample_packet 0 5 1 0 0) demo_server =
     Inr ((sample_packet 0 5 1 0 0)\<lparr>hndl := 1\<rparr>, demo_server2)"
  using demo_mmap2
  by (simp add: server_handle_def handle_alloc_def server_alloc_eq demo_server2_eq)

theorem server_handles_distinct_witness:
  "\<exists>rs. rpc_session (server_handle demo_kernel) [sample_packet 0 5 2 0 0, sample_packet 0 5 1 0 0]
      (new_server Map.empty) = Inr (rs, demo_server2) \<and> granted rs = [0, 1] \<and> distinct (granted rs) \<and>
    list_all (\<lambda>h. addr_map (new_server Map.empty) h = None) (granted rs)"
proof -
  let ?ps = "[sample_packet 0 5 2 0 0, sample_packet 0 5 1 0 0]"
  let ?rs = "[(sample_packet 0 5 2 0 0)\<lparr>hndl := 0\<rparr>, (sample_packet 0 5 1 0 0)\<lparr>hndl := 1\<rparr>]"
  have run: "rpc_session (server_handle demo_kernel) ?ps (new_server Map.empty) = Inr (?rs, demo_server2)"
    by (simp add: demo_alloc demo_alloc2)
  have "\<forall>p \<in> set ?ps. error p = 0" "allocs ?ps \<le> handles_left (new_server Map.empty)"
    "server_inv (new_server Map.empty)"
    by (simp_all add: handles_left_def server_inv_new)
  from server_handles_distinct [OF run this] run show ?thesis
    by (intro exI [of _ ?rs]) (simp add: list_all_iff)
qed

subsection \<open>Outside the contract\<close>

lemma wrapped_size:
  "unat (n * 4096 :: u32) = unat n mod 2 ^ 20 * 4096"
  "2 ^ 20 \<le> unat n \<Longrightarrow> unat (n * 4096 :: u32) < unat n * 4096"
proof -
  have "unat (n * 4096 :: u32) = unat n * 4096 mod (2 ^ 20 * 4096)" by (simp add: unat_word_ariths)
  also have "\<dots> = unat n mod 2 ^ 20 * 4096" by (simp only: mult_mod_left [symmetric])
  finally show eq: "unat (n * 4096 :: u32) = unat n mod 2 ^ 20 * 4096" .
  have "unat n mod 2 ^ 20 < unat n" if "2 ^ 20 \<le> unat n"
    using that by (intro less_le_trans [OF mod_less_divisor]) simp_all
  then show "unat (n * 4096 :: u32) < unat n * 4096" if "2 ^ 20 \<le> unat n"
    using that unfolding eq by simp
qed

text \<open>
  C8. The size of an allocation is computed in 32 bits. For every request of 2^20 pages of 4096
  bytes or more for which the kernel has a place for the wrapped size, the server answers with a new
  handle and no error, maps exactly the wrapped number of bytes, which is less than the pages need,
  and records the full number of pages. A later read of a page past the mapping passes the bounds
  check and kills the server when nothing else is mapped there.
\<close>

theorem server_alloc_size_wraps:
  assumes "kernel_ok k" "action p = 0" "psize p = 4096" "2 ^ 20 \<le> unat (npages p)"
    "mmap_pick k (mem s) (ucast (npages p * 4096)) = Some a"
  shows "\<exists>s'. server_handle k p s = Inr (p\<lparr>hndl := ucast (handle_count s)\<rparr>, s') \<and>
    addr_map s' (ucast (handle_count s)) = Some a \<and>
    hndl_n_pages s' (ucast (handle_count s)) = Some (npages p) \<and>
    (\<forall>x. mem s' x = (if in_range a (unat (npages p * 4096)) x then Some 0 else mem s x)) \<and>
    unat (npages p * 4096) < unat (npages p) * 4096 \<and>
    (\<forall>q. action q = 1 \<longrightarrow> hndl q = ucast (handle_count s) \<longrightarrow> psize q = 4096 \<longrightarrow>
       unat (offset q) < 2 ^ 20 \<longrightarrow> unat (npages p * 4096) \<le> unat (offset q) * 4096 \<longrightarrow>
       mem s (a + ucast (offset q * 4096)) = None \<longrightarrow> server_handle k q s' = Inl Segv)"
proof -
  let ?n = "unat (npages p * 4096)" and ?h = "ucast (handle_count s) :: handle"
  let ?m = "\<lambda>x. if in_range a ?n x then Some 0 else mem s x"
  let ?s = "with_region ?h a (npages p) ?m s"
  have "round_up 4096 ?n = ?n" unfolding wrapped_size(1) by (rule round_up_multiple) simp
  then have "sys_mmap k (mem s) (ucast (npages p * 4096)) = Some (a, ?m)"
    using assms(1,5) by (simp add: sys_mmap_def kernel_ok_def)
  then have "server_handle k p s = Inr (p\<lparr>hndl := ?h\<rparr>, ?s)"
    using assms(2,3) by (simp add: server_handle_def handle_alloc_def server_alloc_eq)
  moreover have "server_handle k q ?s = Inl Segv"
    if q: "action q = 1" "hndl q = ?h" "psize q = 4096" "unat (offset q) < 2 ^ 20"
      "?n \<le> unat (offset q) * 4096" "mem s (a + ucast (offset q * 4096)) = None" for q
  proof -
    have o: "unat (offset q * 4096) = unat (offset q) * 4096"
      unfolding wrapped_size(1) using q(4) by simp
    have w: "(of_nat (unat (offset q * 4096)) :: ul) = ucast (offset q * 4096)" by simp
    have "in_range a ?n (a + of_nat (unat (offset q * 4096))) \<longleftrightarrow> unat (offset q * 4096) < ?n"
      by (rule in_range_of_nat, rule less_trans [OF unat_lt_u32]) simp
    then have "\<not> in_range a ?n (a + ucast (offset q * 4096))"
      unfolding w using o q(5) by linarith
    then have "\<not> mapped ?m (a + ucast (offset q * 4096)) 4096"
      unfolding mapped_def using q(6) by (auto intro!: exI [of _ 0])
    moreover have "\<not> npages p \<le> offset q" using q(4) assms(4) by (simp add: word_le_nat_alt)
    ultimately show ?thesis
      using q(1-3) by (simp add: server_handle_def handle_read_def server_read_def accessor_defs
          load_def mult.commute)
  qed
  ultimately show ?thesis using wrapped_size(2) [OF assms(4)] by (intro exI [of _ ?s]) simp
qed

text \<open>
  The request of \<^verbatim>\<open>test_alloc_a_lot_of_pages\<close> in \<^verbatim>\<open>server/rmp_test.cpp\<close>: 10^12 pages, truncated to 32
  bits by the call that builds the packet.
\<close>

theorem server_alloc_size_wraps_witness:
  "(10 ^ 12 :: nat) mod 2 ^ 32 = 3567587328 \<and>
   (\<exists>s'. server_handle demo_kernel (sample_packet 0 7 3567587328 0 0) (new_server Map.empty) =
      Inr ((sample_packet 0 7 3567587328 0 0)\<lparr>hndl := 0\<rparr>, s') \<and>
    hndl_n_pages s' 0 = Some 3567587328 \<and>
    server_handle demo_kernel (sample_packet 1 0 0 331776 0) s' = Inl Segv)"
proof -
  have "slot_free Map.empty 1358954496 65536" by (simp add: slot_free_def round_up_def)
  then have "mmap_pick demo_kernel (mem (new_server Map.empty))
      (ucast (npages (sample_packet 0 7 3567587328 0 0) * 4096)) = Some 65536"
    by (simp add: slot_kernel_def)
  from server_alloc_size_wraps [OF kernel_ok_slot_kernel _ _ _ this]
  obtain s' where s': "server_handle demo_kernel (sample_packet 0 7 3567587328 0 0) (new_server Map.empty) =
      Inr ((sample_packet 0 7 3567587328 0 0)\<lparr>hndl := 0\<rparr>, s')"
    "hndl_n_pages s' 0 = Some 3567587328"
    "\<forall>q. action q = 1 \<longrightarrow> hndl q = 0 \<longrightarrow> psize q = 4096 \<longrightarrow> unat (offset q) < 2 ^ 20 \<longrightarrow>
       331776 \<le> unat (offset q) \<longrightarrow> server_handle demo_kernel q s' = Inl Segv"
    by auto
  have "server_handle demo_kernel (sample_packet 1 0 0 331776 0) s' = Inl Segv"
    using s'(3) [rule_format, of "sample_packet 1 0 0 331776 0"] by simp
  then show ?thesis using s'(1,2) by auto
qed

text \<open>
  C9. The page size of a request is taken on trust: a client that holds handle \<open>hndl p\<close> (at
  least two pages) and sends the distance to another region as the page size is answered with
  the first page of that other region. Regions are separate only among clients that send 4096.
\<close>

theorem server_page_size_unchecked:
  assumes "server_inv s" "addr_map s (hndl p) = Some a" "hndl_n_pages s (hndl p) = Some n" "1 < n"
    and "addr_map s h' = Some a'" "server_abs s h' = Some pages"
    and "action p = 1" "offset p = 1" "ucast (psize p) = a' - a"
  shows "server_handle k p s = Inr (p\<lparr>data := pages ! 0\<rparr>, s)"
proof -
  obtain n' where n': "hndl_n_pages s h' = Some n'" "n' \<noteq> 0" "mapped (mem s) a' (unat n' * 4096)"
    using assms(1,5) by (rule server_inv_region)
  then have "0 < unat n'" by (simp add: unat_gt_0)
  then have "load (mem s) a' 4096 = Some (pages ! 0)"
    using load_page [OF n'(3), of 0] assms(5,6) n'(1) by (auto simp: server_abs_Some)
  then show ?thesis
    using assms by (simp add: server_handle_def handle_read_def server_read_def accessor_defs
        not_le)
qed

theorem server_page_size_unchecked_witness:
  "server_handle demo_kernel ((sample_packet 1 0 0 1 3)\<lparr>psize := 65536\<rparr>) demo_server2 =
     Inr ((sample_packet 1 0 0 1 3)\<lparr>psize := 65536, data := [zero_page] ! 0\<rparr>, demo_server2)"
  using server_page_size_unchecked [of demo_server2 "(sample_packet 1 0 0 1 3)\<lparr>psize := 65536\<rparr>"
    65536 2 1 131072 "[zero_page]" demo_kernel]
  by simp

end
