(* ===== verification/Server_Net.thy ===== *)
theory Server_Net
  imports RMP_Server_Props
begin

text \<open>
  \<^verbatim>\<open>server/server.cpp\<close>: the socket helpers \<^verbatim>\<open>readn\<close> and \<^verbatim>\<open>writen\<close>, the loop of a connection
  thread and the accept loop of \<^verbatim>\<open>main\<close>. Sockets belong to the operating system: what the calls
  find there is given as a list, one entry per arrival of data, end of file or error. A read
  call takes at most the bytes it asks for and leaves the rest of the arrival for the next
  call. When the list is used up the call blocks, which the results show (\<^const>\<open>None\<close>, or
  \<open>Waiting\<close>), so no theorem can mistake a blocked thread for one that has returned.

  The connection thread ignores what its \<^verbatim>\<open>send\<close> returns. The model takes the send of an answer to
  deliver the whole packet; a send cut short, and the signal SIGPIPE that ends the process when the
  peer has gone, are not part of it.
\<close>

datatype errno = EAGAIN | EWOULDBLOCK | EINTR | Other_errno

datatype arrival = Bytes "byte list" | Eof | Io_error errno

definition leftover :: "nat \<Rightarrow> byte list \<Rightarrow> arrival list \<Rightarrow> arrival list" where
  "leftover n bs net = (if drop n bs = [] then net else Bytes (drop n bs) # net)"

fun arrival_size :: "arrival list \<Rightarrow> nat" where
  "arrival_size [] = 0"
| "arrival_size (Bytes bs # net) = Suc (length bs + arrival_size net)"
| "arrival_size (a # net) = Suc (arrival_size net)"

lemma arrival_size_leftover:
  "0 < n \<Longrightarrow> bs \<noteq> [] \<Longrightarrow> arrival_size (leftover n bs net) < arrival_size (Bytes bs # net)"
  by (cases bs) (auto simp: leftover_def)

definition blit :: "nat \<Rightarrow> byte list \<Rightarrow> byte list \<Rightarrow> byte list" where
  "blit i chunk buf = take i buf @ chunk @ drop (i + length chunk) buf"

lemma length_blit: "i + length chunk \<le> length buf \<Longrightarrow> length (blit i chunk buf) = length buf"
  by (simp add: blit_def)

subsection \<open>readn and writen\<close>

text \<open>
  \<^verbatim>\<open>readn\<close> keeps two counters: \<^verbatim>\<open>bytes_to_read\<close> goes down by what arrived and \<^verbatim>\<open>bytes_read\<close> goes
  up by it, and the loop runs while the first is above the second.
\<close>

function readn_loop ::
  "arrival list \<Rightarrow> nat \<Rightarrow> nat \<Rightarrow> byte list \<Rightarrow> (int \<times> byte list \<times> arrival list) option" where
  "readn_loop net bytes_to_read bytes_read buf =
     (if bytes_to_read > bytes_read then
        (case net of
           [] \<Rightarrow> None
         | Io_error e # net' \<Rightarrow>
             if e = EAGAIN \<or> e = EWOULDBLOCK then readn_loop net' bytes_to_read bytes_read buf
             else Some (if bytes_read < bytes_to_read then - 1 else 0, buf, net')
         | Eof # net' \<Rightarrow> Some (if bytes_read < bytes_to_read then - 1 else 0, buf, net')
         | Bytes bs # net' \<Rightarrow>
             if bs = [] then Some (if bytes_read < bytes_to_read then - 1 else 0, buf, net')
             else let chunk = take bytes_to_read bs
                  in readn_loop (leftover bytes_to_read bs net')
                       (bytes_to_read - length chunk) (bytes_read + length chunk)
                       (blit bytes_read chunk buf))
      else Some (if bytes_read < bytes_to_read then - 1 else 0, buf, net))"
  by pat_completeness auto
termination
  by (relation "measure (\<lambda>(net, _, _, _). arrival_size net)")
    (auto intro: arrival_size_leftover [simplified])

declare readn_loop.simps [simp del]

definition readn :: "arrival list \<Rightarrow> byte list \<Rightarrow> nat \<Rightarrow> (int \<times> byte list \<times> arrival list) option" where
  "readn net p n = readn_loop net n 0 p"

text \<open>What the peer's socket accepts at each \<^verbatim>\<open>write\<close>: up to so many bytes, or an error.\<close>

datatype acceptance = Accepts nat | Refuses errno

fun writen :: "acceptance list \<Rightarrow> byte list \<Rightarrow> bool \<Rightarrow> (int \<times> byte list) option" where
  "writen net [] retry = Some (0, [])"
| "writen [] (b # bs) retry = None"
| "writen (Refuses e # net) (b # bs) retry =
     (if retry \<and> e = EINTR \<or> e = EWOULDBLOCK \<or> e = EAGAIN then writen net (b # bs) retry
      else Some (- 1, []))"
| "writen (Accepts n # net) (b # bs) retry =
     map_option (map_prod id (\<lambda>sent. take n (b # bs) @ sent)) (writen net (drop n (b # bs)) retry)"

subsection \<open>A connection\<close>

text \<open>
  The thread of a connection owns one packet object \<^verbatim>\<open>req\<close>, here its bytes \<open>req\<close>. Each
  \<^verbatim>\<open>recv\<close> overwrites as many leading bytes as arrived (at most \<^verbatim>\<open>sizeof(*req)\<close>) and the object
  is handled at once, whatever its other bytes are. \<open>sent\<close> collects the messages given to
  \<^verbatim>\<open>send\<close> (its result is not looked at), \<open>printed\<close> the lines written to the console.
\<close>

datatype conn_line =
    Allocated u32 handle
  | Client_reading u32 handle
  | Client_writing u32 handle
  | Client_freeing handle

definition conn_print :: "packet \<Rightarrow> conn_line list" where
  "conn_print p =
     (if action p = 0 then [Allocated (npages p) (hndl p)]
      else if action p = 1 then [Client_reading (offset p) (hndl p)]
      else if action p = 2 then [Client_writing (offset p) (hndl p)]
      else if action p = 3 then [Client_freeing (hndl p)]
      else [])"

datatype conn_end = Client_disconnected | Recv_failed | Waiting

record conn_result =
  sent :: "byte list list"
  printed :: "conn_line list"
  conn_end :: conn_end
  conn_server :: server_proc

function connection_handler ::
  "kernel \<Rightarrow> arrival list \<Rightarrow> byte list \<Rightarrow> server_proc \<Rightarrow> conn_result outcome" where
  "connection_handler k net req s =
     (let stop = (\<lambda>e. Inr \<lparr>sent = [], printed = [], conn_end = e, conn_server = s\<rparr>)
      in case net of
           [] \<Rightarrow> stop Waiting
         | Eof # _ \<Rightarrow> stop Client_disconnected
         | Io_error _ # _ \<Rightarrow> stop Recv_failed
         | Bytes bs # net' \<Rightarrow>
             if bs = [] then stop Client_disconnected
             else
               let req1 = blit 0 (take sizeof_packet bs) req
               in ebind (server_handle k (bytes_packet req1) s)
                    (\<lambda>(p', s').
                       let req2 = packet_bytes p' (drop 4124 req1)
                       in ebind (connection_handler k (leftover sizeof_packet bs net') req2 s')
                            (\<lambda>r. Inr (r\<lparr>sent := req2 # sent r,
                                       printed := conn_print p' @ printed r\<rparr>))))"
  by pat_completeness auto
termination
  by (relation "measure (\<lambda>(k, net, req, s). arrival_size net)")
    (auto intro: arrival_size_leftover [simplified] simp: sizeof_packet_def)

declare connection_handler.simps [simp del]

subsection \<open>The accept loop and main\<close>

text \<open>
  One entry per call of \<^verbatim>\<open>accept\<close>: the value it returns, the value \<^verbatim>\<open>pthread_create\<close> returns, the
  previous contents of the freshly allocated packet object, and what arrives on the socket.
  The loop ends when \<^verbatim>\<open>accept\<close> returns 0. \<^verbatim>\<open>pthread_join\<close> follows at once, so a connection is
  served to its end before the next one is accepted; if no thread was created the join works
  on an uninitialised thread identifier (\<open>Bad_thread\<close>). The result holds what each connection
  sent and printed, in order, and the state of the server.
\<close>

record incoming =
  acc_fd :: int
  create_rc :: int
  fresh_req :: "byte list"
  arriving :: "arrival list"

datatype main_end = Exit int | Accept_blocked | Join_blocked

fun accept_loop ::
  "kernel \<Rightarrow> incoming list \<Rightarrow> server_proc \<Rightarrow> (main_end \<times> conn_result list \<times> server_proc) outcome" where
  "accept_loop k [] s = Inr (Accept_blocked, [], s)"
| "accept_loop k (c # cs) s =
     (if acc_fd c = 0 then Inr (Exit (if acc_fd c < 0 then 1 else 0), [], s)
      else if create_rc c < 0 then Inr (Exit 1, [], s)
      else if create_rc c \<noteq> 0 then Inl Bad_thread
      else ebind (connection_handler k (arriving c) (fresh_req c) s)
        (\<lambda>r. if conn_end r = Waiting then Inr (Join_blocked, [r], conn_server r)
             else ebind (accept_loop k cs (conn_server r))
                    (\<lambda>(en, rs, s'). Inr (en, r # rs, s'))))"

record server_start =
  argc :: int
  socket_rc :: int
  setsockopt_rc :: int
  bind_rc :: int
  listen_rc :: int

definition server_main ::
  "kernel \<Rightarrow> server_start \<Rightarrow> incoming list \<Rightarrow> memory \<Rightarrow>
     (main_end \<times> conn_result list \<times> server_proc) outcome" where
  "server_main k st cs m =
     (if argc st \<noteq> 3 then Inr (Exit 1, [], new_server m)
      else if socket_rc st = 0 then Inr (Exit 1, [], new_server m)
      else if setsockopt_rc st \<noteq> 0 then Inr (Exit 1, [], new_server m)
      else if bind_rc st < 0 then Inr (Exit 1, [], new_server m)
      else if listen_rc st < 0 then Inr (Exit 1, [], new_server m)
      else accept_loop k cs (new_server m))"

subsection \<open>readn and writen: facts\<close>

lemma readn_whole:
  assumes "0 < n" "n \<le> length bs"
  shows "readn (Bytes bs # net) p n = Some (0, blit 0 (take n bs) p, leftover n bs net)"
proof -
  have "bs \<noteq> []" using assms by auto
  then show ?thesis
    using assms
    by (simp add: readn_def readn_loop.simps [of "Bytes bs # net"] min_absorb2 Let_def)
      (simp add: readn_loop.simps)
qed

text \<open>
  C10. \<^verbatim>\<open>readn\<close> reports success with bytes missing: when the first arrival holds at least half of
  the \<open>n\<close> bytes asked for, but not all of them, it returns 0 after that arrival and the rest of
  the buffer keeps its old contents, although its comment says that it reads n bytes and
  returns -1 on error.
\<close>

theorem readn_succeeds_at_half:
  assumes "n \<le> 2 * length bs" "length bs < n"
  shows "readn (Bytes bs # net) p n = Some (0, blit 0 bs p, net)"
proof -
  have "bs \<noteq> []" using assms by auto
  then show ?thesis
    using assms
    by (simp add: readn_def readn_loop.simps [of "Bytes bs # net"] leftover_def)
      (simp add: readn_loop.simps)
qed

theorem readn_succeeds_at_half_witness:
  "readn (Bytes [1, 2] # [Bytes [3, 4]]) [9, 9, 9, 9] 4 =
     Some (0, blit 0 [1, 2] [9, 9, 9, 9], [Bytes [3, 4]]) \<and>
   blit 0 [1, 2] [9, 9, 9, 9] = [1, 2, 9, (9 :: byte)]"
proof
  show "readn (Bytes [1, 2] # [Bytes [3, 4]]) [9, 9, 9, 9] 4 =
     Some (0, blit 0 [1, 2] [9, 9, 9, 9], [Bytes [3, 4]])"
    by (rule readn_succeeds_at_half) simp_all
qed (simp add: blit_def)

text \<open>An arrival after which \<^verbatim>\<open>read\<close> gives up: end of file, or an error that is not retried.\<close>

fun ends_read :: "arrival \<Rightarrow> bool" where
  "ends_read (Bytes bs) = (bs = [])"
| "ends_read Eof = True"
| "ends_read (Io_error e) = (e \<noteq> EAGAIN \<and> e \<noteq> EWOULDBLOCK)"

lemma readn_loop_returns:
  assumes "\<exists>x \<in> set net. ends_read x" "bytes_read + bytes_to_read \<le> length buf"
  shows "\<exists>rc buf' net'. readn_loop net bytes_to_read bytes_read buf = Some (rc, buf', net') \<and>
    rc \<in> {0, - 1} \<and> length buf' = length buf \<and>
    drop (bytes_read + bytes_to_read) buf' = drop (bytes_read + bytes_to_read) buf"
  using assms
proof (induction net bytes_to_read bytes_read buf rule: readn_loop.induct)
  case (1 net btr br buf)
  show ?case
  proof (cases "btr > br")
    case True
    obtain x net' where net: "net = x # net'" using "1.prems"(1) by (cases net) auto
    show ?thesis
    proof (cases x)
      case (Bytes bs)
      show ?thesis
      proof (cases "bs = []")
        case False
        let ?chunk = "take btr bs"
        have len: "length ?chunk \<le> btr" "br + length ?chunk \<le> length buf" using "1.prems"(2) by auto
        have "\<exists>x \<in> set (leftover btr bs net'). ends_read x"
          using "1.prems"(1) net Bytes False by (auto simp: leftover_def)
        moreover have l: "length (blit br ?chunk buf) = length buf" by (rule length_blit [OF len(2)])
        moreover have "br + length ?chunk + (btr - length ?chunk) = br + btr" using len(1) by simp
        moreover have "drop (br + btr) (blit br ?chunk buf) = drop (br + btr) buf"
          using len by (simp add: blit_def add.commute)
        ultimately show ?thesis
          using "1.IH"(1) [OF True net Bytes False refl] "1.prems"(2) True False net Bytes
          by (simp add: readn_loop.simps [of "Bytes bs # net'"] Let_def)
      qed (use True net Bytes in \<open>simp add: readn_loop.simps\<close>)
    next
      case Eof
      then show ?thesis using True net by (simp add: readn_loop.simps)
    next
      case (Io_error e)
      show ?thesis
      proof (cases "e = EAGAIN \<or> e = EWOULDBLOCK")
        case retry: True
        then have "\<exists>x \<in> set net'. ends_read x" using "1.prems"(1) net Io_error by auto
        then show ?thesis using "1.IH"(2) [OF True net Io_error retry] "1.prems"(2) True net Io_error retry
          by (simp add: readn_loop.simps [of "Io_error e # net'"])
      qed (use True net Io_error in \<open>simp add: readn_loop.simps\<close>)
    qed
  qed (simp add: readn_loop.simps [of net])
qed

text \<open>
  C38. \<^verbatim>\<open>readn\<close> returns. If the peer ever closes the connection or the socket fails for good, \<^verbatim>\<open>readn\<close>
  returns 0 or -1, however the data is cut into pieces and however many retryable errors come in
  between; and it never writes past the \<open>n\<close> bytes of its buffer.
\<close>

theorem readn_returns:
  assumes "\<exists>x \<in> set net. ends_read x" "n \<le> length p"
  shows "\<exists>rc buf net'. readn net p n = Some (rc, buf, net') \<and> rc \<in> {0, - 1} \<and>
    length buf = length p \<and> drop n buf = drop n p"
  using readn_loop_returns [OF assms(1), of 0 n p] assms(2) by (simp add: readn_def)

theorem readn_returns_witness:
  "\<exists>rc buf net'. readn [Io_error EAGAIN, Bytes [1], Eof] [9, 9, 9, 9, 8] 4 = Some (rc, buf, net') \<and>
     rc \<in> {0, - 1} \<and> length buf = length [9, 9, 9, 9, 8 :: byte] \<and> drop 4 buf = [8]"
  using readn_returns [of "[Io_error EAGAIN, Bytes [1], Eof]" 4 "[9, 9, 9, 9, 8]"] by simp

fun accepted :: "acceptance \<Rightarrow> nat" where
  "accepted (Accepts n) = n"
| "accepted (Refuses e) = 0"

fun retryable :: "bool \<Rightarrow> acceptance \<Rightarrow> bool" where
  "retryable retry (Accepts n) = True"
| "retryable retry (Refuses e) = (retry \<and> e = EINTR \<or> e = EWOULDBLOCK \<or> e = EAGAIN)"

lemma writen_result:
  "writen net bs retry = Some (rc, out) \<Longrightarrow>
     rc = 0 \<and> out = bs \<or> rc = - 1 \<and> (\<exists>n < length bs. out = take n bs)"
proof (induction net bs retry arbitrary: out rule: writen.induct)
  case (3 e net b bs retry)
  then show ?case by (auto split: if_splits)
next
  case (4 n net b bs retry)
  then obtain out' where w: "writen net (drop n (b # bs)) retry = Some (rc, out')"
    and out: "out = take n (b # bs) @ out'" by auto
  from "4.IH" [OF w] show ?case
  proof (elim disjE conjE exE)
    fix m assume "rc = - 1" "m < length (drop n (b # bs))" "out' = take m (drop n (b # bs))"
    then show ?case using out by (intro disjI2 conjI exI [of _ "n + m"]) (auto simp: take_add)
  qed (simp add: out)
qed auto

lemma writen_enough:
  assumes "length bs \<le> sum_list (map accepted net)" "\<forall>a \<in> set net. retryable retry a"
  shows "writen net bs retry = Some (0, bs)"
  using assms
  by (induction net bs retry rule: writen.induct) auto

text \<open>
  C11. \<^verbatim>\<open>writen\<close> is correct: whenever it returns 0, exactly the bytes of the buffer were sent, in
  order; whenever it returns -1, a proper prefix was sent; and it does return 0 once the socket
  has accepted as many bytes, through any pattern of partial writes and retryable errors.
\<close>

theorem writen_correct:
  "(writen net bs retry = Some (0, out) \<longrightarrow> out = bs) \<and>
   (writen net bs retry = Some (- 1, out) \<longrightarrow> (\<exists>n < length bs. out = take n bs)) \<and>
   (length bs \<le> sum_list (map accepted net) \<longrightarrow> (\<forall>a \<in> set net. retryable retry a) \<longrightarrow>
      writen net bs retry = Some (0, bs))"
  using writen_result [of net bs retry 0 out] writen_result [of net bs retry "- 1" out]
    writen_enough [of bs net retry]
  by auto

theorem writen_correct_witness:
  "writen [Accepts 1, Refuses EAGAIN, Accepts 0, Refuses EINTR, Accepts 5] [7, 8, 9] True =
     Some (0, [7, 8, 9])"
  using writen_correct [of "[Accepts 1, Refuses EAGAIN, Accepts 0, Refuses EINTR, Accepts 5]" "[7, 8, 9]" True]
  by simp

subsection \<open>Connections: facts\<close>

lemma connection_handler_step:
  assumes "length bs = sizeof_packet" "length req = sizeof_packet"
  shows "connection_handler k (Bytes bs # net) req s =
    ebind (server_handle k (bytes_packet bs) s)
      (\<lambda>(p', s').
         let req2 = packet_bytes p' (drop 4124 bs)
         in ebind (connection_handler k net req2 s')
              (\<lambda>r. Inr (r\<lparr>sent := req2 # sent r, printed := conn_print p' @ printed r\<rparr>)))"
proof -
  have "bs \<noteq> []" using assms(1) by (auto simp: sizeof_packet_def)
  moreover have "blit 0 bs req = bs" "leftover sizeof_packet bs net = net"
    using assms by (simp_all add: blit_def leftover_def)
  ultimately show ?thesis using assms(1)
    by (subst connection_handler.simps) (simp add: Let_def)
qed

definition framed :: "(packet \<times> byte list) list \<Rightarrow> arrival list" where
  "framed qs = map (\<lambda>(p, pad). Bytes (packet_bytes p pad)) qs @ [Eof]"

definition frame_ok :: "packet \<times> byte list \<Rightarrow> bool" where
  "frame_ok q \<longleftrightarrow> packet_ok (fst q) \<and> length (snd q) = 4"

lemma connection_handler_framed:
  assumes "\<forall>q \<in> set qs. frame_ok q" "length req = sizeof_packet"
    and "rpc_session (server_handle k) (map fst qs) s = Inr (rs, s')"
  shows "\<exists>r. connection_handler k (framed qs) req s = Inr r \<and> map bytes_packet (sent r) = rs \<and>
    printed r = concat (map conn_print rs) \<and> conn_end r = Client_disconnected \<and>
    conn_server r = s'"
  using assms
proof (induction qs arbitrary: req s rs)
  case Nil
  then show ?case by (simp add: framed_def connection_handler.simps)
next
  case (Cons q qs)
  obtain p pad where q: "q = (p, pad)" by force
  with Cons.prems obtain p' s1 rs1 where st: "server_handle k p s = Inr (p', s1)"
    "rpc_session (server_handle k) (map fst qs) s1 = Inr (rs1, s')" "rs = p' # rs1"
    by auto
  have ok: "packet_ok p" "length pad = 4" using Cons.prems(1) q by (auto simp: frame_ok_def)
  then have ok': "packet_ok p'" using server_handle_packet_ok [OF st(1)] by simp
  have bytes: "bytes_packet (packet_bytes p pad) = p" "drop 4124 (packet_bytes p pad) = pad"
    "length (packet_bytes p pad) = sizeof_packet"
    using ok by (simp_all add: bytes_packet_bytes length_packet_bytes)
      (simp add: packet_bytes_def packet_ok_def)
  have "length (packet_bytes p' pad) = sizeof_packet"
    using ok ok' by (simp add: length_packet_bytes)
  then obtain r where "connection_handler k (framed qs) (packet_bytes p' pad) s1 = Inr r"
    "map bytes_packet (sent r) = rs1" "printed r = concat (map conn_print rs1)"
    "conn_end r = Client_disconnected" "conn_server r = s'"
    using Cons.IH [OF _ _ st(2)] Cons.prems(1) by auto
  moreover have "framed (q # qs) = Bytes (packet_bytes p pad) # framed qs"
    by (simp add: framed_def q)
  ultimately show ?case
    using connection_handler_step [OF bytes(3) Cons.prems(2)] st bytes ok'
    by (simp add: bytes_packet_bytes)
qed

text \<open>
  C12. A connection whose requests each arrive in one piece is served as a session: the thread
  sends one answer per request, the answers are those of the abstract pool on the pool the
  server held, the server keeps its invariant, and the thread ends when the client
  disconnects.
\<close>

theorem connection_serves_pool:
  assumes "kernel_ok k" "server_inv s" "\<forall>q \<in> set qs. frame_ok q \<and> request_ok (fst q)"
    and "allocs (map fst qs) \<le> handles_left s" "length req = sizeof_packet"
  shows "\<exists>r. connection_handler k (framed qs) req s = Inr r \<and>
    conn_end r = Client_disconnected \<and> server_inv (conn_server r) \<and>
    pool_run (server_abs s) (map fst qs) (map bytes_packet (sent r)) (server_abs (conn_server r))"
proof -
  obtain rs s' where "rpc_session (server_handle k) (map fst qs) s = Inr (rs, s')"
    "server_inv s'" "pool_run (server_abs s) (map fst qs) rs (server_abs s')"
    using srv.session_refines [of k s "map fst qs"] assms by auto
  then show ?thesis
    using connection_handler_framed [of qs req k s rs s'] assms(3,5) by auto
qed

theorem connection_serves_pool_witness:
  "\<exists>r. connection_handler demo_kernel
      (framed [(sample_packet 2 0 0 1 7, [0, 0, 0, 0]), (sample_packet 1 0 0 1 0, [0, 0, 0, 0])])
      (replicate 4128 0) demo_server = Inr r \<and>
    conn_end r = Client_disconnected \<and> server_inv (conn_server r) \<and>
    pool_run (server_abs demo_server)
      (map fst [(sample_packet 2 0 0 1 7, [0, 0, 0, 0]), (sample_packet 1 0 0 1 0, [0, 0, 0, 0 :: byte])])
      (map bytes_packet (sent r)) (server_abs (conn_server r))"
  by (rule connection_serves_pool)
    (simp_all add: frame_ok_def request_ok_sample packet_ok_def sizeof_packet_def)

lemma connection_handler_stop [simp]:
  "connection_handler k (Eof # net) req s =
     Inr \<lparr>sent = [], printed = [], conn_end = Client_disconnected, conn_server = s\<rparr>"
  "connection_handler k (Io_error e # net) req s =
     Inr \<lparr>sent = [], printed = [], conn_end = Recv_failed, conn_server = s\<rparr>"
  "connection_handler k [] req s =
     Inr \<lparr>sent = [], printed = [], conn_end = Waiting, conn_server = s\<rparr>"
  by (simp_all add: connection_handler.simps)

lemma connection_handler_chunk:
  assumes "bs \<noteq> []" "length bs \<le> sizeof_packet"
  shows "connection_handler k (Bytes bs # net) req s =
    ebind (server_handle k (bytes_packet (bs @ drop (length bs) req)) s)
      (\<lambda>(p', s').
         let req2 = packet_bytes p' (drop 4124 (bs @ drop (length bs) req))
         in ebind (connection_handler k net req2 s')
              (\<lambda>r. Inr (r\<lparr>sent := req2 # sent r, printed := conn_print p' @ printed r\<rparr>)))"
  using assms
  by (subst connection_handler.simps) (simp add: Let_def blit_def leftover_def)

text \<open>
  C13. Nothing reassembles a request that TCP delivers in two segments: the first segment,
  completed by whatever bytes the packet object held before, is handled and answered as a
  request of its own, and so is the second. One request gets two answers.
\<close>

theorem connection_split_request_answered_twice:
  assumes "length bs = sizeof_packet" "0 < c" "c < sizeof_packet"
    and "server_handle k (bytes_packet (take c bs @ drop c req)) s = Inr (p1, s1)"
    and "server_handle k (bytes_packet (drop c bs @ drop (sizeof_packet - c)
      (packet_bytes p1 (drop 4124 (take c bs @ drop c req))))) s1 = Inr (p2, s2)"
  shows "\<exists>r. connection_handler k [Bytes (take c bs), Bytes (drop c bs), Eof] req s = Inr r \<and>
    length (sent r) = 2 \<and> conn_server r = s2"
proof -
  have ne: "take c bs \<noteq> []" "drop c bs \<noteq> []" and len: "length (take c bs) = c"
    "length (drop c bs) = sizeof_packet - c"
    using assms(1-3) by auto
  have le: "length (take c bs) \<le> sizeof_packet" "length (drop c bs) \<le> sizeof_packet"
    using assms(1) by auto
  show ?thesis
    using assms(4,5)
    by (simp only: connection_handler_chunk [OF ne(1) le(1)] connection_handler_chunk [OF ne(2) le(2)]
        len ebind_simps prod.case Let_def connection_handler_stop) auto
qed

lemma refused_alloc:
  "action p = 0 \<Longrightarrow> npages p = 0 \<Longrightarrow>
     server_handle demo_kernel p s = Inr (p\<lparr>error := ALLOC_FAILED\<rparr>, s)"
  by (simp add: server_handle_def handle_alloc_def server_alloc_eq sys_mmap_def slot_kernel_def)

lemma le_word_zeros [simp]: "le_word (replicate n 0) = 0"
  by (induction n) simp_all

theorem connection_split_request_answered_twice_witness:
  "\<exists>r. connection_handler demo_kernel
      [Bytes (take 8 (replicate 4128 0)), Bytes (drop 8 (replicate 4128 0)), Eof]
      (replicate 4128 0) (new_server Map.empty) = Inr r \<and>
    length (sent r) = 2 \<and> conn_server r = new_server Map.empty"
proof (rule connection_split_request_answered_twice)
  let ?p = "bytes_packet (take 8 (replicate 4128 0) @ drop 8 (replicate 4128 0))"
  show "server_handle demo_kernel ?p (new_server Map.empty) =
      Inr (?p\<lparr>error := ALLOC_FAILED\<rparr>, new_server Map.empty)"
    by (rule refused_alloc) (simp_all add: bytes_packet_def)
  let ?q = "bytes_packet (drop 8 (replicate 4128 0) @ drop (sizeof_packet - 8)
      (packet_bytes (?p\<lparr>error := ALLOC_FAILED\<rparr>)
        (drop 4124 (take 8 (replicate 4128 0) @ drop 8 (replicate 4128 0)))))"
  show "server_handle demo_kernel ?q (new_server Map.empty) =
      Inr (?q\<lparr>error := ALLOC_FAILED\<rparr>, new_server Map.empty)"
    by (rule refused_alloc) (simp_all add: bytes_packet_def)
qed (simp_all add: sizeof_packet_def)

subsection \<open>The accept loop: facts\<close>

definition served :: "(packet \<times> byte list) list \<times> incoming \<Rightarrow> bool" where
  "served c \<longleftrightarrow> acc_fd (snd c) \<noteq> 0 \<and> create_rc (snd c) = 0 \<and>
     length (fresh_req (snd c)) = sizeof_packet \<and> arriving (snd c) = framed (fst c) \<and>
     (\<forall>q \<in> set (fst c). frame_ok q \<and> request_ok (fst q))"

abbreviation answers :: "conn_result list \<Rightarrow> packet list" where
  "answers rs \<equiv> map bytes_packet (concat (map sent rs))"

lemma accept_loop_served:
  assumes "\<forall>c \<in> set cs. served c"
    and "rpc_session (server_handle k) (concat (map (\<lambda>c. map fst (fst c)) cs)) s = Inr (ps', s')"
  shows "\<exists>rs. accept_loop k (map snd cs) s = Inr (Accept_blocked, rs, s') \<and> answers rs = ps' \<and>
    map (\<lambda>r. length (sent r)) rs = map (\<lambda>c. length (fst c)) cs"
  using assms
proof (induction cs arbitrary: s ps')
  case Nil
  then show ?case by simp
next
  case (Cons c cs)
  obtain ps1 s1 ps2 where st: "rpc_session (server_handle k) (map fst (fst c)) s = Inr (ps1, s1)"
    "rpc_session (server_handle k) (concat (map (\<lambda>c. map fst (fst c)) cs)) s1 = Inr (ps2, s')"
    "ps' = ps1 @ ps2"
    using Cons.prems(2) by (auto simp: rpc_session_append)
  have "served c" using Cons.prems(1) by simp
  then have c: "acc_fd (snd c) \<noteq> 0" "create_rc (snd c) = 0" "arriving (snd c) = framed (fst c)"
    "length (fresh_req (snd c)) = sizeof_packet" "\<forall>q \<in> set (fst c). frame_ok q"
    by (auto simp: served_def)
  obtain r where r: "connection_handler k (arriving (snd c)) (fresh_req (snd c)) s = Inr r"
    "map bytes_packet (sent r) = ps1" "conn_end r = Client_disconnected" "conn_server r = s1"
    using connection_handler_framed [OF c(5,4) st(1)] c(3) by auto
  have "length (sent r) = length (fst c)"
    using rpc_session_length [OF st(1)] r(2) by auto
  then show ?case using Cons.IH [OF _ st(2)] Cons.prems(1) c(1,2) r st(3) by auto
qed

text \<open>
  C14. Consecutive connections share one server: when every accepted connection delivers its
  requests in one piece each, the answers sent on the connections, one for each request and
  connection after connection, and the state of the server at the end are those of one session of
  all the requests on a new server. The answers are those of the abstract pool, so handles stay
  valid from one connection to the next.
\<close>

theorem accept_loop_shares_pool:
  assumes "kernel_ok k" "\<forall>c \<in> set cs. served c"
    and "allocs (concat (map (\<lambda>c. map fst (fst c)) cs)) < 2 ^ 32"
    and "argc st = 3" "socket_rc st > 0" "setsockopt_rc st = 0" "bind_rc st = 0" "listen_rc st = 0"
  shows "\<exists>rs s'. server_main k st (map snd cs) m = Inr (Accept_blocked, rs, s') \<and>
    map (\<lambda>r. length (sent r)) rs = map (\<lambda>c. length (fst c)) cs \<and>
    rpc_session (server_handle k) (concat (map (\<lambda>c. map fst (fst c)) cs)) (new_server m) =
      Inr (answers rs, s') \<and>
    server_inv s' \<and>
    pool_run Map.empty (concat (map (\<lambda>c. map fst (fst c)) cs)) (answers rs) (server_abs s')"
proof -
  let ?ps = "concat (map (\<lambda>c. map fst (fst c)) cs)"
  have "allocs ?ps \<le> handles_left (new_server m)"
    using assms(3) by (simp add: handles_left_def)
  moreover have "\<forall>p \<in> set ?ps. request_ok p"
    using assms(2) by (auto simp: served_def)
  ultimately obtain ps' s' where S: "rpc_session (server_handle k) ?ps (new_server m) = Inr (ps', s')"
    "server_inv s'" "pool_run (server_abs (new_server m)) ?ps ps' (server_abs s')"
    using srv.session_refines [of k "new_server m" ?ps] assms(1) server_inv_new by blast
  then show ?thesis
    using accept_loop_served [OF assms(2) S(1)] assms(4-8) by (auto simp: server_main_def)
qed

definition demo_conn :: "packet \<Rightarrow> (packet \<times> byte list) list \<times> incoming" where
  "demo_conn p = ([(p, [0, 0, 0, 0])],
     \<lparr>acc_fd = 4, create_rc = 0, fresh_req = replicate 4128 0, arriving = framed [(p, [0, 0, 0, 0])]\<rparr>)"

definition demo_start :: server_start where
  "demo_start = \<lparr>argc = 3, socket_rc = 3, setsockopt_rc = 0, bind_rc = 0, listen_rc = 0\<rparr>"

text \<open>One client allocates, the next one writes a page under the handle the first was given.\<close>

theorem accept_loop_shares_pool_witness:
  "\<exists>rs s'. server_main demo_kernel demo_start
      (map snd [demo_conn (sample_packet 0 5 2 0 0), demo_conn (sample_packet 2 0 0 1 7)]) Map.empty =
      Inr (Accept_blocked, rs, s') \<and>
    answers rs = [(sample_packet 0 5 2 0 0)\<lparr>hndl := 0\<rparr>, sample_packet 2 0 0 1 7] \<and>
    server_inv s' \<and> server_abs s' = [0 \<mapsto> [zero_page, replicate 4096 7]]"
proof -
  let ?cs = "[demo_conn (sample_packet 0 5 2 0 0), demo_conn (sample_packet 2 0 0 1 7)]"
  have ps: "concat (map (\<lambda>c. map fst (fst c)) ?cs) = [sample_packet 0 5 2 0 0, sample_packet 2 0 0 1 7]"
    by (simp add: demo_conn_def)
  have sv: "\<forall>c \<in> set ?cs. served c"
    by (simp add: demo_conn_def served_def frame_ok_def request_ok_sample packet_ok_def sizeof_packet_def)
  have al: "allocs (concat (map (\<lambda>c. map fst (fst c)) ?cs)) < 2 ^ 32" unfolding ps by simp
  have st: "argc demo_start = 3" "socket_rc demo_start > 0" "setsockopt_rc demo_start = 0"
    "bind_rc demo_start = 0" "listen_rc demo_start = 0"
    by (simp_all add: demo_start_def)
  obtain rs s' where r: "server_main demo_kernel demo_start (map snd ?cs) Map.empty = Inr (Accept_blocked, rs, s')"
    "rpc_session (server_handle demo_kernel) [sample_packet 0 5 2 0 0, sample_packet 2 0 0 1 7]
       (new_server Map.empty) = Inr (answers rs, s')" "server_inv s'"
    using accept_loop_shares_pool [OF kernel_ok_slot_kernel sv al st, of "[65536, 131072]" Map.empty]
    unfolding ps by (elim exE conjE)
  obtain s2 where "server_handle demo_kernel (sample_packet 2 0 0 1 7) demo_server = Inr (sample_packet 2 0 0 1 7, s2)"
    "server_abs s2 = [0 \<mapsto> [zero_page, replicate 4096 7]]"
    using srv.write_page [of demo_kernel demo_server "sample_packet 2 0 0 1 7" "[zero_page, zero_page]"]
    by (auto simp: request_ok_sample)
  then have "rpc_session (server_handle demo_kernel) [sample_packet 0 5 2 0 0, sample_packet 2 0 0 1 7]
      (new_server Map.empty) = Inr ([(sample_packet 0 5 2 0 0)\<lparr>hndl := 0\<rparr>, sample_packet 2 0 0 1 7], s2)"
    by (simp add: demo_alloc)
  then have "answers rs = [(sample_packet 0 5 2 0 0)\<lparr>hndl := 0\<rparr>, sample_packet 2 0 0 1 7]" "s' = s2"
    unfolding r(2) by simp_all
  then show ?thesis
    using r(1,3) \<open>server_abs s2 = _\<close> by (intro exI [of _ rs] exI [of _ s2] conjI) (simp_all only:)
qed

lemma accept_loop_exit:
  assumes "\<forall>c \<in> set cs. 0 \<le> create_rc c" "accept_loop k cs s = Inr (Exit e, rs, s')"
  shows "e = 0 \<and> (\<exists>c \<in> set cs. acc_fd c = 0)"
  using assms
proof (induction cs arbitrary: s rs)
  case (Cons c cs)
  then show ?case
    by (cases "connection_handler k (arriving c) (fresh_req c) s") (auto split: if_splits)
qed simp

text \<open>
  C15. A failed \<^verbatim>\<open>accept\<close> never ends the server. Once \<^verbatim>\<open>main\<close> listens, and as long as \<^verbatim>\<open>pthread_create\<close>
  does not return a negative value (it returns 0 or a positive error number), \<^verbatim>\<open>main\<close> can only return
  0, after \<^verbatim>\<open>accept\<close> has returned descriptor 0; the branch that prints "Client connection accept
  failed!" and returns 1 is never taken, since -1 is a true loop condition. A failed \<^verbatim>\<open>accept\<close> starts
  a connection thread on descriptor -1 instead, whose first \<^verbatim>\<open>recv\<close> fails, and the loop goes on.
\<close>

theorem accept_loop_error_branch_dead:
  assumes "argc st = 3" "socket_rc st > 0" "setsockopt_rc st = 0" "bind_rc st = 0" "listen_rc st = 0"
    "\<forall>c \<in> set cs. 0 \<le> create_rc c"
    "acc_fd c = - 1" "create_rc c = 0" "arriving c = [Io_error err]"
  shows "(\<forall>e rs s'. server_main k st cs m = Inr (Exit e, rs, s') \<longrightarrow> e = 0 \<and> (\<exists>c \<in> set cs. acc_fd c = 0)) \<and>
    server_main k st (c # cs) m =
      ebind (server_main k st cs m)
        (\<lambda>(en, rs, s'). Inr (en, \<lparr>sent = [], printed = [], conn_end = Recv_failed,
           conn_server = new_server m\<rparr> # rs, s'))"
proof -
  have main: "server_main k st cs' m = accept_loop k cs' (new_server m)" for cs'
    using assms(1-5) by (simp add: server_main_def)
  show ?thesis unfolding main using accept_loop_exit [OF assms(6)] assms(7-9) by auto
qed

definition failed_accept :: incoming where
  "failed_accept = \<lparr>acc_fd = - 1, create_rc = 0, fresh_req = replicate 4128 0, arriving = [Io_error Other_errno]\<rparr>"

definition zero_accept :: incoming where
  "zero_accept = \<lparr>acc_fd = 0, create_rc = 0, fresh_req = [], arriving = []\<rparr>"

theorem accept_loop_error_branch_dead_witness:
  "\<exists>e rs. server_main demo_kernel demo_start [failed_accept, zero_accept] Map.empty =
     Inr (Exit e, rs, new_server Map.empty) \<and> e = 0 \<and> map conn_end rs = [Recv_failed]"
proof -
  let ?r = "\<lparr>sent = [], printed = [], conn_end = Recv_failed, conn_server = new_server Map.empty\<rparr>"
  have z: "server_main demo_kernel demo_start [zero_accept] Map.empty = Inr (Exit 0, [], new_server Map.empty)"
    by (simp add: server_main_def demo_start_def zero_accept_def)
  have "server_main demo_kernel demo_start [failed_accept, zero_accept] Map.empty =
      ebind (server_main demo_kernel demo_start [zero_accept] Map.empty) (\<lambda>(en, rs, s'). Inr (en, ?r # rs, s'))"
    by (rule conjunct2 [OF accept_loop_error_branch_dead [where err = Other_errno]])
      (simp_all add: demo_start_def failed_accept_def zero_accept_def)
  then show ?thesis unfolding z by auto
qed

end
