(* ===== verification/Uffdman.thy ===== *)
theory Uffdman
  imports RMP_Prelude
begin

text \<open>
  The userfaultfd manager, \<^verbatim>\<open>uffdman/uffdman.cpp\<close>. The record \<open>uffdman\<close> holds its globals (five
  maps behind pointers, the registered page resolver, the static scratch page and fault counter
  of the handler threads) and what the kernel keeps on its behalf: the registered ranges and
  the resident pages of those ranges, by page address. The program's other memory is not here.

  The page resolver is a function pointer set by the client. It works on state of its own
  (connection, server), so the model is polymorphic in that state, \<open>'w\<close>, and a resolver is a
  state transformer over it. The page a resolver reads or fills is passed as a \<open>buffer\<close>: its
  contents, or why there are none (a page of a registered range that is not resident, or an
  invalid pointer).

  The code of all handler threads after the event has been read runs under the mutex
  \<^verbatim>\<open>fault_handler_cr\<close>, so one event is handled atomically: \<open>handle_pagefault\<close>.
\<close>

subsection \<open>State\<close>

datatype map_pointers = Unallocated | Allocated | Deleted

datatype buffer = Buf page | Missing | Bad_pointer

datatype scratch = No_page | Page_failed | Page page

type_synonym 'w resolver = "ul \<Rightarrow> ul \<Rightarrow> int \<Rightarrow> buffer \<Rightarrow> 'w \<Rightarrow> (buffer \<times> 'w) outcome"

record 'w uffdman =
  uffd_initialized :: bool
  map_pointers :: map_pointers
  addr_tid_map :: "ul \<rightharpoonup> ul"
  start_addr_uffd_map :: "ul \<rightharpoonup> ul"
  uffd_start_addr_map :: "ul \<rightharpoonup> ul"
  uffd_prev_resolved_addr :: "ul \<rightharpoonup> ul"
  uffd_prev_resolved_op :: "ul \<rightharpoonup> ul"
  page_resolver :: "'w resolver option"
  scratch_page :: scratch
  fault_cnt :: u32
  ranges :: "(ul \<times> ul \<times> ul) list"
  resident :: "ul \<rightharpoonup> page"
  cancelled :: "ul list"
  world :: 'w

text \<open>
  What the operating system decides: the page size (\<^verbatim>\<open>sysconf(_SC_PAGE_SIZE)\<close>), whether the
  scratch page can be mapped, and whether \<^verbatim>\<open>UFFDIO_COPY\<close> succeeds, given the resident pages,
  the descriptor and the destination.
\<close>

record uffd_os =
  PAGE_SIZE :: ul
  scratch_ok :: bool
  copy_ok :: "(ul \<rightharpoonup> page) \<Rightarrow> ul \<Rightarrow> ul \<Rightarrow> bool"

definition PGROUNDDOWN :: "ul \<Rightarrow> ul \<Rightarrow> ul" where
  "PGROUNDDOWN pg a = a AND NOT (pg - 1)"

definition deref :: "'w uffdman \<Rightarrow> 'a outcome \<Rightarrow> 'a outcome" where
  "deref s r =
     (case map_pointers s of
        Unallocated \<Rightarrow> Inl Null_deref
      | Allocated \<Rightarrow> r
      | Deleted \<Rightarrow> Inl Use_after_free)"

text \<open>\<^verbatim>\<open>unordered_map::insert\<close> keeps an element that is already there.\<close>

definition map_insert :: "'k \<Rightarrow> 'v \<Rightarrow> ('k \<rightharpoonup> 'v) \<Rightarrow> ('k \<rightharpoonup> 'v)" where
  "map_insert key val m = (if m key = None then m(key \<mapsto> val) else m)"

definition region_buffer :: "ul \<Rightarrow> 'w uffdman \<Rightarrow> buffer" where
  "region_buffer a s = (case resident s a of Some pg \<Rightarrow> Buf pg | None \<Rightarrow> Missing)"

definition scratch_buffer :: "'w uffdman \<Rightarrow> buffer" where
  "scratch_buffer s = (case scratch_page s of Page pg \<Rightarrow> Buf pg | _ \<Rightarrow> Bad_pointer)"

definition put_region :: "ul \<Rightarrow> buffer \<Rightarrow> 'w uffdman \<Rightarrow> 'w uffdman" where
  "put_region a b s = (case b of Buf pg \<Rightarrow> s\<lparr>resident := (resident s)(a \<mapsto> pg)\<rparr> | _ \<Rightarrow> s)"

definition put_scratch :: "buffer \<Rightarrow> 'w uffdman \<Rightarrow> 'w uffdman" where
  "put_scratch b s = (case b of Buf pg \<Rightarrow> s\<lparr>scratch_page := Page pg\<rparr> | _ \<Rightarrow> s)"

subsection \<open>Initialisation and the resolver\<close>

definition uffdman_init :: "'w uffdman \<Rightarrow> 'w uffdman" where
  "uffdman_init s =
     (if \<not> uffd_initialized s then
        s\<lparr>map_pointers := Allocated, uffd_prev_resolved_addr := Map.empty,
          uffd_prev_resolved_op := Map.empty, addr_tid_map := Map.empty,
          start_addr_uffd_map := Map.empty, uffd_start_addr_map := Map.empty,
          uffd_initialized := True\<rparr>
      else s)"

definition uffdman_destroy :: "'w uffdman \<Rightarrow> 'w uffdman outcome" where
  "uffdman_destroy s =
     (case map_pointers s of
        Unallocated \<Rightarrow> Inr s
      | Allocated \<Rightarrow> Inr (s\<lparr>map_pointers := Deleted\<rparr>)
      | Deleted \<Rightarrow> Inl Use_after_free)"

definition uffdman_register_page_resolver :: "'w resolver \<Rightarrow> 'w uffdman \<Rightarrow> 'w uffdman" where
  "uffdman_register_page_resolver f s = s\<lparr>page_resolver := Some f\<rparr>"

definition uffdman_unregister_page_resolver :: "'w uffdman \<Rightarrow> 'w uffdman" where
  "uffdman_unregister_page_resolver s = s\<lparr>page_resolver := None\<rparr>"

definition call_resolver ::
  "ul \<Rightarrow> ul \<Rightarrow> int \<Rightarrow> buffer \<Rightarrow> 'w uffdman \<Rightarrow> (buffer \<times> 'w uffdman) outcome" where
  "call_resolver start addr op b s =
     (case page_resolver s of
        None \<Rightarrow> Inl Null_call
      | Some f \<Rightarrow> ebind (f start addr op b (world s)) (\<lambda>(b', w'). Inr (b', s\<lparr>world := w'\<rparr>)))"

subsection \<open>Invalidation and fault handling\<close>

definition madvise_dontneed :: "ul \<Rightarrow> 'w uffdman \<Rightarrow> 'w uffdman" where
  "madvise_dontneed a s = s\<lparr>resident := (resident s)(a := None)\<rparr>"

definition invalidate_prev_resolved_page :: "ul \<Rightarrow> ul \<Rightarrow> 'w uffdman \<Rightarrow> 'w uffdman outcome" where
  "invalidate_prev_resolved_page pg uffd s =
     deref s
       (case (uffd_prev_resolved_addr s uffd, uffd_prev_resolved_op s uffd, uffd_start_addr_map s uffd) of
          (Some prev_resolved_addr, Some op, Some region_start_addr) \<Rightarrow>
            let prev_resolved_op = sint (ucast op :: 32 word)
            in ebind
                 (if prev_resolved_op \<noteq> 0
                  then ebind (call_resolver region_start_addr prev_resolved_addr prev_resolved_op
                                (region_buffer prev_resolved_addr s) s)
                         (\<lambda>(b, s'). Inr (put_region prev_resolved_addr b s'))
                  else Inr s)
                 (\<lambda>s'. Inr (madvise_dontneed (PGROUNDDOWN pg prev_resolved_addr) s'))
        | _ \<Rightarrow> Inr s)"

definition UFFD_PAGEFAULT_FLAG_WRITE :: ul where "UFFD_PAGEFAULT_FLAG_WRITE = 1"

text \<open>
  The body of the handler loop for one page-fault event, from the fault counter to the update
  of the two maps. The first component of the result is False when the loop is left.
\<close>

definition resolve_read_fault :: "ul \<Rightarrow> ul \<Rightarrow> 'w uffdman \<Rightarrow> 'w uffdman outcome" where
  "resolve_read_fault uffd faulting_addr s =
     deref s
       (case uffd_start_addr_map s uffd of
          None \<Rightarrow> Inl Out_of_range
        | Some region_start_addr \<Rightarrow>
            ebind (call_resolver region_start_addr faulting_addr 0 (scratch_buffer s) s)
              (\<lambda>(b, s'). Inr (put_scratch b s')))"

text \<open>
  The descriptor a page of the program is registered with, if any. \<^verbatim>\<open>UFFDIO_COPY\<close> is refused for a
  destination that is registered with no descriptor; the kernel does not ask for the descriptor
  the copy is made through. For registered destinations its answer is \<^const>\<open>copy_ok\<close>.
\<close>

definition range_owner :: "(ul \<times> ul \<times> ul) list \<Rightarrow> ul \<Rightarrow> ul option" where
  "range_owner rs a =
     map_option fst
       (List.find (\<lambda>(uffd, addr, len). unat addr \<le> unat a \<and> unat a < unat addr + unat len) rs)"

abbreviation owner :: "'w uffdman \<Rightarrow> ul \<Rightarrow> ul option" where
  "owner s \<equiv> range_owner (ranges s)"

definition install_page :: "uffd_os \<Rightarrow> ul \<Rightarrow> ul \<Rightarrow> int \<Rightarrow> 'w uffdman \<Rightarrow> bool \<times> 'w uffdman" where
  "install_page os uffd faulting_addr faulting_op s =
     (let dst = PGROUNDDOWN (PAGE_SIZE os) faulting_addr
      in case scratch_page s of
           Page pg \<Rightarrow>
             if owner s dst \<noteq> None \<and> copy_ok os (resident s) uffd dst then
               (True, s\<lparr>resident := (resident s)(dst \<mapsto> pg),
                  uffd_prev_resolved_addr := (uffd_prev_resolved_addr s)(uffd \<mapsto> dst),
                  uffd_prev_resolved_op := (uffd_prev_resolved_op s)(uffd \<mapsto> of_int faulting_op)\<rparr>)
             else (False, s)
         | _ \<Rightarrow> (False, s))"

definition handle_pagefault ::
  "uffd_os \<Rightarrow> ul \<Rightarrow> ul \<Rightarrow> ul \<Rightarrow> 'w uffdman \<Rightarrow> (bool \<times> 'w uffdman) outcome" where
  "handle_pagefault os uffd address flags s =
     (let faulting_op = sint (ucast (flags AND UFFD_PAGEFAULT_FLAG_WRITE) :: 32 word)
      in ebind (invalidate_prev_resolved_page (PAGE_SIZE os) uffd (s\<lparr>fault_cnt := fault_cnt s + 1\<rparr>))
           (\<lambda>s1. ebind (if faulting_op = 0 then resolve_read_fault uffd address s1 else Inr s1)
              (\<lambda>s2. Inr (install_page os uffd address faulting_op s2))))"

subsection \<open>The handler thread\<close>

datatype uffd_event = Event_pagefault ul ul | Event_unmap | Event_other

datatype poll_result = Poll_failed | Read_eof | Read_failed | Read_msg uffd_event

datatype thread_end = Polling | Finished

fun fault_loop ::
  "uffd_os \<Rightarrow> ul \<Rightarrow> poll_result list \<Rightarrow> 'w uffdman \<Rightarrow> (thread_end \<times> 'w uffdman) outcome" where
  "fault_loop os uffd [] s = Inr (Polling, s)"
| "fault_loop os uffd (Poll_failed # es) s = Inr (Finished, s)"
| "fault_loop os uffd (Read_eof # es) s = Inr (Finished, s)"
| "fault_loop os uffd (Read_failed # es) s = Inr (Finished, s)"
| "fault_loop os uffd (Read_msg Event_unmap # es) s = fault_loop os uffd es s"
| "fault_loop os uffd (Read_msg Event_other # es) s = Inr (Finished, s)"
| "fault_loop os uffd (Read_msg (Event_pagefault address flags) # es) s =
     ebind (handle_pagefault os uffd address flags s)
       (\<lambda>(continue, s'). if continue then fault_loop os uffd es s' else Inr (Finished, s'))"

definition fault_handler_thread ::
  "uffd_os \<Rightarrow> ul \<Rightarrow> poll_result list \<Rightarrow> 'w uffdman \<Rightarrow> (thread_end \<times> 'w uffdman) outcome" where
  "fault_handler_thread os uffd es s =
     fault_loop os uffd es
       (if scratch_page s = No_page
        then s\<lparr>scratch_page := if scratch_ok os then Page (replicate (unat (PAGE_SIZE os)) 0)
                               else Page_failed\<rparr>
        else s)"

subsection \<open>Regions\<close>

text \<open>
  The results of the system calls that \<^verbatim>\<open>uffdman_register_region\<close> makes, in the order in which
  it makes them.
\<close>

record reg_calls =
  userfaultfd_rc :: ul
  api_rc :: int
  register_rc :: int
  thread_rc :: int
  thrd_id :: ul

definition uffdman_register_region ::
  "uffd_os \<Rightarrow> reg_calls \<Rightarrow> ul \<Rightarrow> ul \<Rightarrow> 'w uffdman \<Rightarrow> (int \<times> 'w uffdman) outcome" where
  "uffdman_register_region os c addr n_pages s =
     (let len = n_pages * PAGE_SIZE os; uffd = userfaultfd_rc c;
          s1 = s\<lparr>ranges := (uffd, addr, len) # ranges s\<rparr>
      in if uffd = - 1 then Inr (- 1, s)
         else if api_rc c = - 1 then Inr (- 1, s)
         else if register_rc c = - 1 then Inr (- 1, s)
         else if thread_rc c \<noteq> 0 then Inr (- 1, s1)
         else deref s1
           (Inr (0, s1\<lparr>addr_tid_map := map_insert addr (thrd_id c) (addr_tid_map s1),
                       start_addr_uffd_map := map_insert addr uffd (start_addr_uffd_map s1),
                       uffd_start_addr_map := map_insert uffd addr (uffd_start_addr_map s1)\<rparr>)))"

text \<open>The entry of \<^verbatim>\<open>addr_tid_map\<close> is erased under the thread identifier, not under the address.\<close>

definition cancel_thread :: "ul \<Rightarrow> 'w uffdman \<Rightarrow> 'w uffdman" where
  "cancel_thread addr s =
     (case addr_tid_map s addr of
        None \<Rightarrow> s
      | Some tid \<Rightarrow>
          s\<lparr>addr_tid_map := (addr_tid_map s)(tid := None), cancelled := tid # cancelled s\<rparr>)"

definition uffdman_unregister_region :: "ul \<Rightarrow> ul \<Rightarrow> 'w uffdman \<Rightarrow> 'w uffdman outcome" where
  "uffdman_unregister_region pg addr s =
     deref s
       (case start_addr_uffd_map s addr of
          None \<Rightarrow> Inr s
        | Some uffd \<Rightarrow>
            ebind (invalidate_prev_resolved_page pg uffd s)
              (\<lambda>s1. Inr (cancel_thread addr
                 (s1\<lparr>start_addr_uffd_map := (start_addr_uffd_map s1)(addr := None),
                     uffd_start_addr_map := (uffd_start_addr_map s1)(uffd := None),
                     uffd_prev_resolved_addr := (uffd_prev_resolved_addr s1)(uffd := None),
                     uffd_prev_resolved_op := (uffd_prev_resolved_op s1)(uffd := None)\<rparr>))))"

definition handle_unmap_event :: "ul \<Rightarrow> ul \<Rightarrow> 'w uffdman \<Rightarrow> 'w uffdman outcome" where
  "handle_unmap_event pg uffd s =
     deref s
       (case uffd_start_addr_map s uffd of
          None \<Rightarrow> Inl Out_of_range
        | Some region_start_addr \<Rightarrow> uffdman_unregister_region pg region_start_addr s)"

end
