(* ===== verification/Off_By_One.thy ===== *)
theory Off_By_One
  imports Uffdman
begin

text \<open>
  What the userfaultfd manager implements for one region, stated without maps, descriptors and
  addresses: the scheme its comment calls off-by-one invalidation. Of the pages of a region at
  most one is resident; a fault on another page writes it back if the fault that brought it in
  was a write, drops it, and installs a page: the backing page for a read fault, the contents
  of the scratch page for a write fault. The locale \<open>page_backing\<close> is what the manager relies
  on in the page resolver it calls, and the theory proves inside it that handling a fault on
  the concrete state is one step of this machine.
\<close>

subsection \<open>The abstract machine\<close>

record obo =
  backing :: "page list"
  cached :: "(nat \<times> bool \<times> page) option"
  last_page :: page

definition obo_evict :: "obo \<Rightarrow> obo" where
  "obo_evict c =
     (case cached c of
        None \<Rightarrow> c
      | Some (i, dirty, pg) \<Rightarrow>
          c\<lparr>backing := (if dirty then (backing c)[i := pg] else backing c), cached := None\<rparr>)"

definition obo_fault :: "bool \<Rightarrow> nat \<Rightarrow> obo \<Rightarrow> obo" where
  "obo_fault wr i c =
     (let c1 = obo_evict c; pg = (if wr then last_page c1 else backing c1 ! i)
      in c1\<lparr>cached := Some (i, wr, pg), last_page := pg\<rparr>)"

definition obo_ok :: "obo \<Rightarrow> bool" where
  "obo_ok c \<longleftrightarrow>
     (\<forall>pg \<in> set (backing c). length pg = 4096) \<and> length (last_page c) = 4096 \<and>
     (\<forall>i d pg. cached c = Some (i, d, pg) \<longrightarrow> i < length (backing c) \<and> length pg = 4096)"

lemma obo_evict_simps [simp]:
  "cached (obo_evict c) = None" "last_page (obo_evict c) = last_page c"
  "length (backing (obo_evict c)) = length (backing c)"
  by (simp_all add: obo_evict_def split: option.splits)

lemma obo_evict_ok: "obo_ok c \<Longrightarrow> obo_ok (obo_evict c)"
  by (auto simp: obo_ok_def obo_evict_def split: option.splits
      dest!: set_update_subset_insert [THEN subsetD])

lemma obo_fault_simps [simp]:
  "length (backing (obo_fault wr i c)) = length (backing c)"
  "backing (obo_fault wr i c) = backing (obo_evict c)"
  by (simp_all add: obo_fault_def Let_def)

lemma obo_fault_ok: "obo_ok c \<Longrightarrow> i < length (backing c) \<Longrightarrow> obo_ok (obo_fault wr i c)"
  using obo_evict_ok [of c] by (auto simp: obo_ok_def obo_fault_def Let_def)

subsection \<open>Addresses of pages\<close>

lemma unat_PGROUNDDOWN: "unat (PGROUNDDOWN 4096 a) = unat a div 4096 * 4096"
proof -
  have "PGROUNDDOWN 4096 a = push_bit 12 (drop_bit 12 a)"
  proof (rule bit_word_eqI)
    fix n assume "n < LENGTH(64)"
    have "(4095 :: ul) = mask 12" by (simp add: mask_eq_exp_minus_1)
    then have "bit (4095 :: ul) n \<longleftrightarrow> n < 12"
      using \<open>n < LENGTH(64)\<close> by (simp only: bit_mask_iff) (auto simp: bit_simps)
    then show "bit (PGROUNDDOWN 4096 a) n \<longleftrightarrow> bit (push_bit 12 (drop_bit 12 a)) n"
      using \<open>n < LENGTH(64)\<close> by (auto simp: PGROUNDDOWN_def bit_simps)
  qed
  moreover have "take_bit 64 (unat a) = unat a" by (simp add: take_bit_nat_eq_self)
  then have "unat (push_bit 12 (drop_bit 12 a)) = take_bit 64 (push_bit 12 (drop_bit 12 (unat a)))"
    by (simp add: unsigned_push_bit_eq unsigned_drop_bit_eq)
  moreover have "push_bit 12 (drop_bit 12 (unat a)) = unat a div 4096 * 4096"
    by (simp add: push_bit_eq_mult drop_bit_eq_div)
  moreover have "unat a div 4096 * 4096 < 2 ^ 64"
    using le_less_trans [OF div_times_less_eq_dividend unat_lt_ul [of a]] by simp
  ultimately show ?thesis by (simp add: take_bit_nat_eq_self)
qed

definition region_page :: "ul \<Rightarrow> nat \<Rightarrow> ul" where
  "region_page start i = start + of_nat (i * 4096)"

definition region_ok :: "ul \<Rightarrow> nat \<Rightarrow> bool" where
  "region_ok start n \<longleftrightarrow> 4096 dvd unat start \<and> unat start + n * 4096 \<le> 2 ^ 64"

lemma unat_region:
  assumes "unat (start :: ul) + t < 2 ^ 64"
  shows "unat (start + of_nat t) = unat start + t"
proof -
  have "t < 2 ^ 64" using assms by simp
  then have "unat (of_nat t :: ul) = t" by (rule unat_of_nat_ul)
  then show ?thesis using assms by (simp add: unat_word_ariths)
qed

lemma region_okD:
  assumes "region_ok start n" "t < n * 4096"
  shows "unat start + t < 2 ^ 64" "t < 2 ^ 64"
  using assms by (auto simp: region_ok_def)

lemma PGROUNDDOWN_region:
  assumes "region_ok start n" "t < n * 4096"
  shows "PGROUNDDOWN 4096 (start + of_nat t) = region_page start (t div 4096)"
proof -
  have t': "t div 4096 * 4096 < n * 4096"
    using assms(2) by (meson div_times_less_eq_dividend le_less_trans)
  obtain q where q: "unat start = q * 4096" using assms(1) by (auto simp: region_ok_def dvd_def)
  have "unat (PGROUNDDOWN 4096 (start + of_nat t)) = (q * 4096 + t) div 4096 * 4096"
    by (simp add: unat_PGROUNDDOWN unat_region [OF region_okD(1) [OF assms]] q)
  also have "\<dots> = unat start + t div 4096 * 4096" by (simp add: q add_mult_distrib)
  also have "\<dots> = unat (region_page start (t div 4096))"
    unfolding region_page_def by (rule unat_region [OF region_okD(1) [OF assms(1) t'], symmetric])
  finally show ?thesis by (simp only: word_unat_eq_iff)
qed

lemma region_page_inj:
  assumes "region_ok start n" "i < n" "j < n" "region_page start i = region_page start j"
  shows "i = j"
proof -
  have "of_nat (i * 4096) = (of_nat (j * 4096) :: ul)"
    using assms(4) by (simp only: region_page_def add_left_cancel)
  moreover have "i * 4096 < 2 ^ 64" "j * 4096 < 2 ^ 64"
    using region_okD(2) [OF assms(1)] assms(2,3) by simp_all
  ultimately have "i * 4096 = j * 4096" by (rule of_nat_ul_inj)
  then show ?thesis by simp
qed

lemma PGROUNDDOWN_region_page:
  assumes "region_ok start n" "i < n"
  shows "PGROUNDDOWN 4096 (region_page start i) = region_page start i"
  using PGROUNDDOWN_region [OF assms(1), of "i * 4096"] assms(2) by (simp add: region_page_def)

lemma region_byte_offset:
  assumes "region_ok start n" "t < n * 4096"
  shows "unat (start + of_nat t - region_page start (t div 4096)) = t mod 4096"
proof -
  have "start + of_nat t - region_page start (t div 4096) = of_nat (t mod 4096)"
  proof -
    have "t = t div 4096 * 4096 + t mod 4096" by simp
    then have "(of_nat t :: ul) = of_nat (t div 4096 * 4096) + of_nat (t mod 4096)"
      by (metis of_nat_add)
    then show ?thesis by (simp add: region_page_def)
  qed
  moreover have "t mod 4096 < 2 ^ 64" by (rule less_trans [of _ 4096]) simp_all
  ultimately show ?thesis by (simp only: unat_of_nat_ul)
qed

subsection \<open>How a state represents the machine\<close>

text \<open>
  \<open>base_rel\<close>: the manager is set up, the region is known and registered with its descriptor, its
  backing pages are those of the machine, and the scratch page holds what the machine remembers as last page.
  \<open>cache_rel\<close>: the maps of previously resolved pages and the resident pages of the region are
  the machine's cached page.
\<close>

definition base_rel ::
  "'w resolver \<Rightarrow> ('w \<Rightarrow> bool) \<Rightarrow> ('w \<Rightarrow> (ul \<rightharpoonup> page list)) \<Rightarrow> ul \<Rightarrow> ul \<Rightarrow> obo \<Rightarrow> 'w uffdman \<Rightarrow> bool"
where
  "base_rel resolve winv remote uffd start c s \<longleftrightarrow>
     map_pointers s = Allocated \<and> page_resolver s = Some resolve \<and> winv (world s) \<and>
     uffd_start_addr_map s uffd = Some start \<and> remote (world s) start = Some (backing c) \<and>
     region_ok start (length (backing c)) \<and>
     scratch_page s = Page (last_page c) \<and> length (last_page c) = 4096 \<and>
     (\<forall>t < length (backing c) * 4096. owner s (start + of_nat t) = Some uffd)"

definition no_resident :: "ul \<Rightarrow> nat \<Rightarrow> 'w uffdman \<Rightarrow> bool" where
  "no_resident start n s \<longleftrightarrow> (\<forall>i < n. resident s (region_page start i) = None)"

definition cache_rel :: "ul \<Rightarrow> ul \<Rightarrow> obo \<Rightarrow> 'w uffdman \<Rightarrow> bool" where
  "cache_rel uffd start c s \<longleftrightarrow>
     (case cached c of
        None \<Rightarrow> uffd_prev_resolved_addr s uffd = None \<and> no_resident start (length (backing c)) s
      | Some (i, d, pg) \<Rightarrow>
          i < length (backing c) \<and> length pg = 4096 \<and>
          uffd_prev_resolved_addr s uffd = Some (region_page start i) \<and>
          uffd_prev_resolved_op s uffd = Some (if d then 1 else 0) \<and>
          resident s (region_page start i) = Some pg \<and>
          (\<forall>j < length (backing c). j \<noteq> i \<longrightarrow> resident s (region_page start j) = None))"

lemma cache_rel_Some:
  "cached c = Some (i, d, pg) \<Longrightarrow> cache_rel uffd start c s \<longleftrightarrow>
     i < length (backing c) \<and> length pg = 4096 \<and>
     uffd_prev_resolved_addr s uffd = Some (region_page start i) \<and>
     uffd_prev_resolved_op s uffd = Some (if d then 1 else 0) \<and>
     resident s (region_page start i) = Some pg \<and>
     (\<forall>j < length (backing c). j \<noteq> i \<longrightarrow> resident s (region_page start j) = None)"
  by (simp add: cache_rel_def)

lemma cache_rel_None:
  "cached c = None \<Longrightarrow> cache_rel uffd start c s \<longleftrightarrow>
     uffd_prev_resolved_addr s uffd = None \<and> no_resident start (length (backing c)) s"
  by (simp add: cache_rel_def)

lemma fault_cnt_rel [simp]:
  "base_rel resolve winv remote uffd start c (s\<lparr>fault_cnt := n\<rparr>) =
     base_rel resolve winv remote uffd start c s"
  "cache_rel uffd start c (s\<lparr>fault_cnt := n\<rparr>) = cache_rel uffd start c s"
  by (simp_all add: base_rel_def cache_rel_def no_resident_def
      split: option.split prod.split)

text \<open>What no step on region \<open>start\<close> of \<open>n\<close> pages, handled by \<open>uffd\<close>, changes.\<close>

definition elsewhere_same ::
  "('w \<Rightarrow> (ul \<rightharpoonup> page list)) \<Rightarrow> ul \<Rightarrow> ul \<Rightarrow> nat \<Rightarrow> 'w uffdman \<Rightarrow> 'w uffdman \<Rightarrow> bool" where
  "elsewhere_same remote uffd start n s s' \<longleftrightarrow>
     ranges s' = ranges s \<and> uffd_start_addr_map s' = uffd_start_addr_map s \<and>
     start_addr_uffd_map s' = start_addr_uffd_map s \<and> addr_tid_map s' = addr_tid_map s \<and>
     (\<forall>u. u \<noteq> uffd \<longrightarrow> uffd_prev_resolved_addr s' u = uffd_prev_resolved_addr s u \<and>
        uffd_prev_resolved_op s' u = uffd_prev_resolved_op s u) \<and>
     (\<forall>a. (\<forall>i < n. a \<noteq> region_page start i) \<longrightarrow> resident s' a = resident s a) \<and>
     (\<forall>st. st \<noteq> start \<longrightarrow> remote (world s') st = remote (world s) st)"

lemma elsewhere_same_refl [simp]: "elsewhere_same remote uffd start n s s"
  by (simp add: elsewhere_same_def)

lemma elsewhere_same_trans:
  "elsewhere_same remote uffd start n s1 s2 \<Longrightarrow> elsewhere_same remote uffd start n s2 s3 \<Longrightarrow>
     elsewhere_same remote uffd start n s1 s3"
  by (simp add: elsewhere_same_def)

text \<open>
  What the properties of regions assume of the operating system: pages of 4096 bytes, and that a
  copy to a page of a registered range that is not resident succeeds.
\<close>

definition uffd_os_ok :: "uffd_os \<Rightarrow> bool" where
  "uffd_os_ok os \<longleftrightarrow> PAGE_SIZE os = 4096 \<and> (\<forall>r uffd dst. r dst = None \<longrightarrow> copy_ok os r uffd dst)"

text \<open>A sequence of faults in a region, as the kernel reports them and as the machine takes them.\<close>

definition fault_event :: "ul \<Rightarrow> nat \<times> bool \<Rightarrow> poll_result" where
  "fault_event start f =
     Read_msg (Event_pagefault (region_page start (fst f)) (if snd f then 1 else 0))"

definition obo_faults :: "(nat \<times> bool) list \<Rightarrow> obo \<Rightarrow> obo" where
  "obo_faults fs c = fold (\<lambda>(i, wr). obo_fault wr i) fs c"

subsection \<open>The contract of a page resolver\<close>

locale page_backing =
  fixes resolve :: "'w resolver"
    and winv :: "'w \<Rightarrow> bool"
    and remote :: "'w \<Rightarrow> (ul \<rightharpoonup> page list)"
  assumes resolve_read:
      "winv w \<Longrightarrow> remote w start = Some pages \<Longrightarrow> region_ok start (length pages) \<Longrightarrow>
       i < length pages \<Longrightarrow> length b = 4096 \<Longrightarrow>
       \<exists>w'. resolve start (region_page start i) 0 (Buf b) w = Inr (Buf (pages ! i), w') \<and>
         winv w' \<and> remote w' = remote w"
    and resolve_write:
      "winv w \<Longrightarrow> remote w start = Some pages \<Longrightarrow> region_ok start (length pages) \<Longrightarrow>
       i < length pages \<Longrightarrow> length b = 4096 \<Longrightarrow>
       \<exists>w'. resolve start (region_page start i) 1 (Buf b) w = Inr (Buf b, w') \<and>
         winv w' \<and> remote w' = (remote w)(start \<mapsto> pages[i := b])"
    and remote_page_length:
      "winv w \<Longrightarrow> remote w start = Some pages \<Longrightarrow> pg \<in> set pages \<Longrightarrow> length pg = 4096"
begin

lemma invalidate_step:
  assumes base: "base_rel resolve winv remote uffd start c s" and cache: "cache_rel uffd start c s"
  shows "\<exists>s'. invalidate_prev_resolved_page 4096 uffd s = Inr s' \<and>
    base_rel resolve winv remote uffd start (obo_evict c) s' \<and>
    no_resident start (length (backing c)) s' \<and>
    elsewhere_same remote uffd start (length (backing c)) s s'"
proof (cases "cached c")
  case None
  then have "invalidate_prev_resolved_page 4096 uffd s = Inr s"
    using base cache
    by (simp add: invalidate_prev_resolved_page_def deref_def base_rel_def cache_rel_def)
  moreover have "obo_evict c = c" using None by (simp add: obo_evict_def)
  moreover have "no_resident start (length (backing c)) s"
    using None cache by (simp add: cache_rel_None)
  ultimately show ?thesis using base by simp
next
  case (Some x)
  obtain i d pg where x: "x = (i, d, pg)" by (cases x)
  let ?a = "region_page start i"
  have B: "map_pointers s = Allocated" "page_resolver s = Some resolve" "winv (world s)"
    "uffd_start_addr_map s uffd = Some start" "remote (world s) start = Some (backing c)"
    "region_ok start (length (backing c))"
    using base by (simp_all add: base_rel_def)
  have C: "i < length (backing c)" "length pg = 4096" "uffd_prev_resolved_addr s uffd = Some ?a"
    "uffd_prev_resolved_op s uffd = Some (if d then 1 else 0)" "resident s ?a = Some pg"
    "\<forall>j < length (backing c). j \<noteq> i \<longrightarrow> resident s (region_page start j) = None"
    using cache unfolding cache_rel_Some [OF Some [unfolded x]] by blast+
  have rd: "PGROUNDDOWN 4096 ?a = ?a" by (rule PGROUNDDOWN_region_page [OF B(6) C(1)])
  have drop: "\<forall>w. no_resident start (length (backing c))
      (s\<lparr>world := w, resident := (resident s)(?a := None)\<rparr>)"
    unfolding no_resident_def using C(6) by auto
  have other: "\<forall>w. (\<forall>st. st \<noteq> start \<longrightarrow> remote w st = remote (world s) st) \<longrightarrow>
      elsewhere_same remote uffd start (length (backing c)) s
        (s\<lparr>world := w, resident := (resident s)(?a := None)\<rparr>)"
    unfolding elsewhere_same_def using C(1) by simp
  have "\<exists>w. invalidate_prev_resolved_page 4096 uffd s =
      Inr (s\<lparr>world := w, resident := (resident s)(?a := None)\<rparr>) \<and> winv w \<and>
      remote w = (remote (world s))(start \<mapsto> backing (obo_evict c))"
  proof (cases d)
    case True
    obtain w' where w': "resolve start ?a 1 (Buf pg) (world s) = Inr (Buf pg, w')" "winv w'"
      "remote w' = (remote (world s))(start \<mapsto> (backing c)[i := pg])"
      using resolve_write [OF B(3,5,6) C(1,2)] by blast
    have "invalidate_prev_resolved_page 4096 uffd s =
        Inr (s\<lparr>world := w', resident := (resident s)(?a := None)\<rparr>)"
      by (simp add: True B C rd w'(1) invalidate_prev_resolved_page_def deref_def
          call_resolver_def region_buffer_def put_region_def madvise_dontneed_def)
    moreover have "backing (obo_evict c) = (backing c)[i := pg]"
      using Some x True by (simp add: obo_evict_def)
    ultimately show ?thesis using w'(2,3) by auto
  next
    case False
    have "invalidate_prev_resolved_page 4096 uffd s =
        Inr (s\<lparr>world := world s, resident := (resident s)(?a := None)\<rparr>)"
      by (simp add: False B C rd invalidate_prev_resolved_page_def deref_def madvise_dontneed_def)
    moreover have "backing (obo_evict c) = backing c"
      using Some x False by (simp add: obo_evict_def)
    ultimately show ?thesis using B(3,5) by (metis fun_upd_triv)
  qed
  then obtain w where w: "invalidate_prev_resolved_page 4096 uffd s =
      Inr (s\<lparr>world := w, resident := (resident s)(?a := None)\<rparr>)" "winv w"
      "remote w = (remote (world s))(start \<mapsto> backing (obo_evict c))"
    by blast
  have "base_rel resolve winv remote uffd start (obo_evict c)
      (s\<lparr>world := w, resident := (resident s)(?a := None)\<rparr>)"
    using base w(2,3) by (simp add: base_rel_def)
  moreover have "elsewhere_same remote uffd start (length (backing c)) s
      (s\<lparr>world := w, resident := (resident s)(?a := None)\<rparr>)"
    using other w(3) by simp
  ultimately show ?thesis using w(1) drop by blast
qed

lemma read_fault_step:
  assumes base: "base_rel resolve winv remote uffd start c s" and i: "i < length (backing c)"
  shows "\<exists>s'. resolve_read_fault uffd (region_page start i) s = Inr s' \<and>
    base_rel resolve winv remote uffd start (c\<lparr>last_page := backing c ! i\<rparr>) s' \<and>
    resident s' = resident s \<and> elsewhere_same remote uffd start (length (backing c)) s s'"
proof -
  have B: "map_pointers s = Allocated" "page_resolver s = Some resolve" "winv (world s)"
    "uffd_start_addr_map s uffd = Some start" "remote (world s) start = Some (backing c)"
    "region_ok start (length (backing c))" "scratch_page s = Page (last_page c)"
    "length (last_page c) = 4096"
    using base by (simp_all add: base_rel_def)
  obtain w' where w': "resolve start (region_page start i) 0 (Buf (last_page c)) (world s) =
      Inr (Buf (backing c ! i), w')" "winv w'" "remote w' = remote (world s)"
    using resolve_read [OF B(3,5,6) i B(8)] by blast
  let ?s = "s\<lparr>world := w', scratch_page := Page (backing c ! i)\<rparr>"
  have "resolve_read_fault uffd (region_page start i) s = Inr ?s"
    using B w'(1) by (simp add: resolve_read_fault_def deref_def call_resolver_def
        scratch_buffer_def put_scratch_def)
  moreover have "length (backing c ! i) = 4096"
    using remote_page_length [OF B(3,5)] i by simp
  then have "base_rel resolve winv remote uffd start (c\<lparr>last_page := backing c ! i\<rparr>) ?s"
    using base w'(2,3) by (simp add: base_rel_def)
  ultimately show ?thesis using w'(3) by (simp add: elsewhere_same_def)
qed

lemma install_step:
  assumes base: "base_rel resolve winv remote uffd start c s" and i: "i < length (backing c)"
    and none: "no_resident start (length (backing c)) s" and os: "uffd_os_ok os"
  shows "\<exists>s'. install_page os uffd (region_page start i) (if wr then 1 else 0) s = (True, s') \<and>
    base_rel resolve winv remote uffd start (c\<lparr>cached := Some (i, wr, last_page c)\<rparr>) s' \<and>
    cache_rel uffd start (c\<lparr>cached := Some (i, wr, last_page c)\<rparr>) s' \<and>
    elsewhere_same remote uffd start (length (backing c)) s s'"
proof -
  let ?a = "region_page start i"
  have B: "scratch_page s = Page (last_page c)" "length (last_page c) = 4096"
    "region_ok start (length (backing c))"
    using base by (simp_all add: base_rel_def)
  have rd: "PGROUNDDOWN (PAGE_SIZE os) ?a = ?a"
    using PGROUNDDOWN_region_page [OF B(3) i] os by (simp add: uffd_os_ok_def)
  let ?s = "s\<lparr>resident := (resident s)(?a \<mapsto> last_page c),
      uffd_prev_resolved_addr := (uffd_prev_resolved_addr s)(uffd \<mapsto> ?a),
      uffd_prev_resolved_op := (uffd_prev_resolved_op s)(uffd \<mapsto> (if wr then 1 else 0))\<rparr>"
  have "owner s (start + of_nat (i * 4096)) = Some uffd"
    using base i unfolding base_rel_def by (metis mult_less_mono1 zero_less_numeral)
  then have "owner s ?a = Some uffd" by (simp add: region_page_def)
  moreover have "copy_ok os (resident s) uffd ?a"
    using none os i by (simp add: uffd_os_ok_def no_resident_def)
  ultimately have "install_page os uffd ?a (if wr then 1 else 0) s = (True, ?s)"
    using B(1) rd by (simp add: install_page_def Let_def)
  moreover have "base_rel resolve winv remote uffd start (c\<lparr>cached := Some (i, wr, last_page c)\<rparr>) ?s"
    using base by (simp add: base_rel_def)
  moreover have "\<forall>j < length (backing c). region_page start j = ?a \<longrightarrow> j = i"
    using region_page_inj [OF B(3) _ i] by blast
  then have "\<forall>j < length (backing c). j \<noteq> i \<longrightarrow> resident ?s (region_page start j) = None"
    using none by (auto simp: no_resident_def)
  then have "cache_rel uffd start (c\<lparr>cached := Some (i, wr, last_page c)\<rparr>) ?s"
    using i B(2) by (simp add: cache_rel_def)
  moreover have "elsewhere_same remote uffd start (length (backing c)) s ?s"
    using i unfolding elsewhere_same_def by simp
  ultimately show ?thesis by blast
qed

lemma fault_step:
  assumes base: "base_rel resolve winv remote uffd start c s" and cache: "cache_rel uffd start c s"
    and i: "i < length (backing c)" and os: "uffd_os_ok os"
  shows "\<exists>s'. handle_pagefault os uffd (region_page start i) (if wr then 1 else 0) s = Inr (True, s') \<and>
    base_rel resolve winv remote uffd start (obo_fault wr i c) s' \<and>
    cache_rel uffd start (obo_fault wr i c) s' \<and>
    elsewhere_same remote uffd start (length (backing c)) s s'"
proof -
  let ?c1 = "obo_evict c" and ?n = "length (backing c)"
  let ?s0 = "s\<lparr>fault_cnt := fault_cnt s + 1\<rparr>"
  let ?c2 = "?c1\<lparr>last_page := (if wr then last_page ?c1 else backing ?c1 ! i)\<rparr>"
  have pg: "PAGE_SIZE os = 4096" using os by (simp add: uffd_os_ok_def)
  have "base_rel resolve winv remote uffd start c ?s0" "cache_rel uffd start c ?s0"
    using base cache by simp_all
  from invalidate_step [OF this]
  obtain s1 where s1: "invalidate_prev_resolved_page 4096 uffd ?s0 = Inr s1"
    "base_rel resolve winv remote uffd start ?c1 s1" "no_resident start ?n s1"
    "elsewhere_same remote uffd start ?n ?s0 s1" by blast
  have "\<exists>s2. (if wr then Inr s1 else resolve_read_fault uffd (region_page start i) s1) = Inr s2 \<and>
      base_rel resolve winv remote uffd start ?c2 s2 \<and> resident s2 = resident s1 \<and>
      elsewhere_same remote uffd start ?n s1 s2"
  proof (cases wr)
    case True
    then have "?c2 = ?c1" by (simp del: obo_evict_simps)
    then show ?thesis using s1(2) True by (simp del: obo_evict_simps)
  next
    case False
    then show ?thesis using read_fault_step [OF s1(2), of i] i by simp
  qed
  then obtain s2 where s2:
      "(if wr then Inr s1 else resolve_read_fault uffd (region_page start i) s1) = Inr s2"
      "base_rel resolve winv remote uffd start ?c2 s2" "resident s2 = resident s1"
      "elsewhere_same remote uffd start ?n s1 s2" by blast
  have none: "no_resident start (length (backing ?c2)) s2"
    using s1(3) s2(3) by (simp add: no_resident_def)
  have i2: "i < length (backing ?c2)" using i by simp
  have eq: "?c2\<lparr>cached := Some (i, wr, last_page ?c2)\<rparr> = obo_fault wr i c"
    by (simp add: obo_fault_def Let_def)
  from install_step [OF s2(2) i2 none os, of wr, unfolded eq]
  obtain s3 where s3:
      "install_page os uffd (region_page start i) (if wr then 1 else 0) s2 = (True, s3)"
      "base_rel resolve winv remote uffd start (obo_fault wr i c) s3"
      "cache_rel uffd start (obo_fault wr i c) s3"
      "elsewhere_same remote uffd start ?n s2 s3" by auto
  have "handle_pagefault os uffd (region_page start i) (if wr then 1 else 0) s = Inr (True, s3)"
    using s1(1) s2(1) s3(1)
    by (cases wr) (simp_all add: handle_pagefault_def UFFD_PAGEFAULT_FLAG_WRITE_def pg)
  moreover have "elsewhere_same remote uffd start ?n s ?s0" by (simp add: elsewhere_same_def)
  then have "elsewhere_same remote uffd start ?n s s3"
    using s1(4) s2(4) s3(4) by (meson elsewhere_same_trans)
  ultimately show ?thesis using s3(2,3) by blast
qed

lemma unregister_step:
  assumes base: "base_rel resolve winv remote uffd start c s" and cache: "cache_rel uffd start c s"
    and "start_addr_uffd_map s start = Some uffd"
  shows "\<exists>s'. uffdman_unregister_region 4096 start s = Inr s' \<and>
    winv (world s') \<and> remote (world s') = (remote (world s))(start \<mapsto> backing (obo_evict c)) \<and>
    no_resident start (length (backing c)) s' \<and>
    start_addr_uffd_map s' = (start_addr_uffd_map s)(start := None) \<and>
    uffd_start_addr_map s' = (uffd_start_addr_map s)(uffd := None) \<and>
    uffd_prev_resolved_addr s' uffd = None"
proof -
  obtain s1 where s1: "invalidate_prev_resolved_page 4096 uffd s = Inr s1"
    "base_rel resolve winv remote uffd start (obo_evict c) s1"
    "no_resident start (length (backing c)) s1"
    "elsewhere_same remote uffd start (length (backing c)) s s1"
    using invalidate_step [OF base cache] by blast
  have "remote (world s1) st = ((remote (world s))(start \<mapsto> backing (obo_evict c))) st" for st
    using s1(2,4) by (simp add: base_rel_def elsewhere_same_def)
  then have r: "remote (world s1) = (remote (world s))(start \<mapsto> backing (obo_evict c))" by blast
  have "map_pointers s = Allocated" using base by (simp add: base_rel_def)
  then show ?thesis
    using assms(3) s1 r
    by (simp add: uffdman_unregister_region_def deref_def cancel_thread_def no_resident_def
        base_rel_def elsewhere_same_def split: option.splits)
qed

lemma fault_loop_step:
  assumes "base_rel resolve winv remote uffd start c s" "cache_rel uffd start c s" "uffd_os_ok os"
    "\<forall>(i, wr) \<in> set fs. i < length (backing c)"
  shows "\<exists>s'. fault_loop os uffd (map (fault_event start) fs) s = Inr (Polling, s') \<and>
    base_rel resolve winv remote uffd start (obo_faults fs c) s' \<and>
    cache_rel uffd start (obo_faults fs c) s'"
  using assms
proof (induction fs arbitrary: c s)
  case Nil
  then show ?case by (simp add: obo_faults_def)
next
  case (Cons f fs)
  obtain i wr where f: "f = (i, wr)" by (cases f)
  have i: "i < length (backing c)" using Cons.prems(4) f by simp
  obtain s1 where s1: "handle_pagefault os uffd (region_page start i) (if wr then 1 else 0) s = Inr (True, s1)"
    "base_rel resolve winv remote uffd start (obo_fault wr i c) s1"
    "cache_rel uffd start (obo_fault wr i c) s1"
    using fault_step [OF Cons.prems(1,2) i Cons.prems(3)] by blast
  have "\<forall>(i, wr) \<in> set fs. i < length (backing (obo_fault wr i c))"
    using Cons.prems(4) by (auto simp del: obo_fault_simps(2))
  from Cons.IH [OF s1(2,3) Cons.prems(3)] this
  show ?case using s1(1) Cons.prems(4) by (simp add: f fault_event_def obo_faults_def del: obo_fault_simps(2))
qed

end

end
