(* ===== verification/Off_By_One_Bytes.thy ===== *)
theory Off_By_One_Bytes
  imports Off_By_One
begin

text \<open>
  Loads and stores of single bytes on the machine of \<^verbatim>\<open>Off_By_One\<close>, by offset in the region, and
  what they do to \<open>obo_view\<close>, the byte a load at an offset would return. A machine is coherent
  when a page brought in by a read fault still equals its backing page; loads keep the view of
  a coherent machine, and the effect of a store is determined exactly: besides the stored byte,
  it replaces the rest of the page by the last page of the region manager when the page was not
  resident. The theory ends with the one write pattern that is safe from the start, a whole
  region filled in ascending order.
\<close>

datatype 'a access = Load 'a | Store 'a byte

definition obo_resident :: "obo \<Rightarrow> nat \<Rightarrow> bool" where
  "obo_resident c i \<longleftrightarrow> (case cached c of None \<Rightarrow> False | Some (j, d, pg) \<Rightarrow> j = i)"

definition obo_touch :: "bool \<Rightarrow> nat \<Rightarrow> obo \<Rightarrow> obo" where
  "obo_touch wr t c = (if obo_resident c (t div 4096) then c else obo_fault wr (t div 4096) c)"

definition obo_view :: "obo \<Rightarrow> nat \<Rightarrow> byte" where
  "obo_view c t =
     (case cached c of
        None \<Rightarrow> backing c ! (t div 4096) ! (t mod 4096)
      | Some (i, d, pg) \<Rightarrow>
          if i = t div 4096 then pg ! (t mod 4096) else backing c ! (t div 4096) ! (t mod 4096))"

definition obo_load :: "nat \<Rightarrow> obo \<Rightarrow> byte \<times> obo" where
  "obo_load t c = (obo_view (obo_touch False t c) t, obo_touch False t c)"

definition obo_store :: "nat \<Rightarrow> byte \<Rightarrow> obo \<Rightarrow> obo" where
  "obo_store t b c =
     (let c1 = obo_touch True t c
      in case cached c1 of
           None \<Rightarrow> c1
         | Some (i, d, pg) \<Rightarrow> c1\<lparr>cached := Some (i, d, pg[t mod 4096 := b])\<rparr>)"

fun obo_run :: "nat access list \<Rightarrow> obo \<Rightarrow> byte list \<times> obo" where
  "obo_run [] c = ([], c)"
| "obo_run (Load t # as) c =
     (let (b, c1) = obo_load t c; (bs, c2) = obo_run as c1 in (b # bs, c2))"
| "obo_run (Store t b # as) c = obo_run as (obo_store t b c)"

definition obo_coherent :: "obo \<Rightarrow> bool" where
  "obo_coherent c \<longleftrightarrow> (\<forall>i pg. cached c = Some (i, False, pg) \<longrightarrow> pg = backing c ! i)"

definition obo_dirty :: "obo \<Rightarrow> nat \<Rightarrow> bool" where
  "obo_dirty c i \<longleftrightarrow> (\<exists>pg. cached c = Some (i, True, pg))"

lemma obo_run_append:
  "obo_run (as @ as') c =
     (let (bs, c1) = obo_run as c; (bs', c2) = obo_run as' c1 in (bs @ bs', c2))"
  by (induction as c rule: obo_run.induct) (simp_all add: Let_def split: prod.split)

subsection \<open>Eviction, faults and the view\<close>

lemma page_index: "t < n * 4096 \<Longrightarrow> t div 4096 < (n :: nat)"
  by (simp add: less_mult_imp_div_less)

lemma page_lengths:
  assumes "obo_ok c"
  shows "i < length (backing c) \<Longrightarrow> length (backing c ! i) = 4096"
    "length (last_page c) = 4096" "cached c = Some (i, d, pg) \<Longrightarrow> length pg = 4096"
    "cached c = Some (i, d, pg) \<Longrightarrow> i < length (backing c)"
  using assms by (auto simp: obo_ok_def)

lemma obo_evict_view:
  assumes "obo_ok c" "obo_coherent c"
  shows "obo_view (obo_evict c) u = obo_view c u"
proof (cases "cached c")
  case (Some x)
  obtain i d pg where "x = (i, d, pg)" by (cases x)
  then show ?thesis
    using Some assms page_lengths(4) [OF assms(1)]
    by (auto simp: obo_view_def obo_evict_def obo_coherent_def)
qed (simp add: obo_evict_def)

lemma obo_fault_cached:
  "cached (obo_fault wr i c) =
     Some (i, wr, if wr then last_page c else backing (obo_evict c) ! i)"
  by (simp add: obo_fault_def Let_def)

lemma obo_view_evicted: "obo_view (obo_evict c) u = backing (obo_evict c) ! (u div 4096) ! (u mod 4096)"
  by (simp add: obo_view_def)

lemma obo_fault_view:
  assumes "obo_ok c" "obo_coherent c"
  shows "obo_view (obo_fault wr i c) u =
    (if wr \<and> u div 4096 = i then last_page c ! (u mod 4096) else obo_view c u)"
  unfolding obo_evict_view [OF assms, symmetric] obo_view_evicted
  by (simp add: obo_view_def obo_fault_cached)

lemma obo_touch_simps [simp]:
  "length (backing (obo_touch wr t c)) = length (backing c)"
  "obo_resident (obo_touch wr t c) (t div 4096)"
  by (simp_all add: obo_touch_def obo_resident_def obo_fault_cached)

lemma obo_touch_ok: "obo_ok c \<Longrightarrow> t < length (backing c) * 4096 \<Longrightarrow> obo_ok (obo_touch wr t c)"
  by (simp add: obo_touch_def obo_fault_ok page_index)

lemma obo_touch_view:
  assumes "obo_ok c" "obo_coherent c"
  shows "obo_view (obo_touch wr t c) u =
    (if wr \<and> u div 4096 = t div 4096 \<and> \<not> obo_resident c (t div 4096)
     then last_page c ! (u mod 4096) else obo_view c u)"
  by (simp add: obo_touch_def obo_fault_view [OF assms])

lemma obo_touch_coherent: "obo_coherent c \<Longrightarrow> obo_coherent (obo_touch wr t c)"
  by (auto simp: obo_touch_def obo_coherent_def obo_fault_cached)

subsection \<open>Loads and stores\<close>

lemma obo_load_spec:
  assumes "obo_ok c" "obo_coherent c" "t < length (backing c) * 4096"
  shows "fst (obo_load t c) = obo_view c t" "obo_ok (snd (obo_load t c))"
    "obo_coherent (snd (obo_load t c))" "obo_view (snd (obo_load t c)) u = obo_view c u"
    "length (backing (snd (obo_load t c))) = length (backing c)"
  using assms by (simp_all add: obo_load_def obo_touch_ok obo_touch_coherent obo_touch_view)

lemma obo_residentE:
  assumes "obo_resident c i"
  obtains d pg where "cached c = Some (i, d, pg)"
  using assms by (auto simp: obo_resident_def split: option.splits)

lemma obo_store_length [simp]: "length (backing (obo_store t b c)) = length (backing c)"
  by (simp add: obo_store_def Let_def split: option.split prod.split)

lemma obo_store_ok:
  assumes "obo_ok c" "t < length (backing c) * 4096"
  shows "obo_ok (obo_store t b c)"
  using obo_touch_ok [OF assms, of True]
  by (auto simp: obo_store_def Let_def obo_ok_def split: option.split)

lemma obo_store_view:
  assumes "obo_ok c" "obo_coherent c" "t < length (backing c) * 4096"
  shows "obo_view (obo_store t b c) u =
    (if u = t then b
     else if u div 4096 = t div 4096 \<and> \<not> obo_resident c (t div 4096)
     then last_page c ! (u mod 4096) else obo_view c u)"
proof -
  let ?c1 = "obo_touch True t c"
  obtain d pg where pg: "cached ?c1 = Some (t div 4096, d, pg)"
    by (rule obo_residentE [OF obo_touch_simps(2)])
  have len: "length pg = 4096"
    using pg page_lengths(3) [OF obo_touch_ok [OF assms(1,3)]] by blast
  have same: "u = t" if "u div 4096 = t div 4096" "u mod 4096 = t mod 4096"
    using that by (metis div_mult_mod_eq)
  have "obo_view (obo_store t b c) u = (if u = t then b else obo_view ?c1 u)"
  proof (cases "u div 4096 = t div 4096")
    case True
    then show ?thesis using pg len same
      by (cases "u = t") (auto simp: obo_store_def obo_view_def nth_list_update)
  next
    case False
    then show ?thesis using pg by (auto simp: obo_store_def obo_view_def)
  qed
  then show ?thesis using obo_touch_view [OF assms(1,2), of True t u] by simp
qed

lemma obo_store_dirty:
  assumes "obo_dirty c (t div 4096) \<or> \<not> obo_resident c (t div 4096)"
  shows "obo_dirty (obo_store t b c) (t div 4096)"
  using assms
  by (auto simp: obo_dirty_def obo_store_def obo_touch_def obo_fault_cached obo_resident_def)

lemma obo_dirty_coherent: "obo_dirty c i \<Longrightarrow> obo_coherent c"
  by (auto simp: obo_dirty_def obo_coherent_def)

lemma obo_dirty_resident: "obo_dirty c i \<Longrightarrow> obo_resident c j \<longleftrightarrow> j = i"
  by (auto simp: obo_dirty_def obo_resident_def)

subsection \<open>Filling a region and reading it\<close>

fun fill :: "nat \<Rightarrow> byte list \<Rightarrow> nat access list" where
  "fill t [] = []"
| "fill t (b # bs) = Store t b # fill (Suc t) bs"

lemma obo_loads:
  assumes "obo_ok c" "obo_coherent c" "\<forall>t \<in> set ts. t < length (backing c) * 4096"
  shows "fst (obo_run (map Load ts) c) = map (obo_view c) ts"
  using assms
proof (induction ts arbitrary: c)
  case (Cons t ts)
  then show ?case
    using obo_load_spec [of c t] by (simp add: Let_def split_beta)
qed simp

lemma obo_loads_keep:
  assumes "obo_ok c" "obo_coherent c" "\<forall>t \<in> set ts. t < length (backing c) * 4096"
  shows "obo_ok (snd (obo_run (map Load ts) c)) \<and> obo_coherent (snd (obo_run (map Load ts) c)) \<and>
    (\<forall>u. obo_view (snd (obo_run (map Load ts) c)) u = obo_view c u)"
  using assms
proof (induction ts arbitrary: c)
  case (Cons t ts)
  have t: "t < length (backing c) * 4096" using Cons.prems(3) by simp
  note L = obo_load_spec [OF Cons.prems(1,2) t]
  show ?case using Cons.IH [OF L(2,3)] Cons.prems(3) L(4,5) by (simp add: Let_def split_beta)
qed simp

text \<open>
  While a region is filled upwards, the page being filled is resident and dirty, and nothing
  behind it changes.
\<close>

lemma obo_fill:
  assumes "obo_ok c" "k + length bs \<le> length (backing c) * 4096" "bs \<noteq> []"
    and "obo_coherent c"
    and "k mod 4096 = 0 \<and> \<not> obo_resident c (k div 4096) \<or> obo_dirty c (k div 4096)"
  shows "\<exists>c'. obo_run (fill k bs) c = ([], c') \<and> obo_ok c' \<and> obo_coherent c' \<and>
    length (backing c') = length (backing c) \<and>
    obo_dirty c' ((k + length bs - 1) div 4096) \<and>
    (\<forall>u < k. obo_view c' u = obo_view c u) \<and>
    (\<forall>u. (k + length bs - 1) div 4096 < u div 4096 \<longrightarrow> obo_view c' u = obo_view c u) \<and>
    (\<forall>i < length bs. obo_view c' (k + i) = bs ! i)"
  using assms
proof (induction bs arbitrary: k c)
  case (Cons b bs)
  let ?c1 = "obo_store k b c"
  have k: "k < length (backing c) * 4096" using Cons.prems(2) by simp
  have ok: "obo_ok ?c1" by (rule obo_store_ok [OF Cons.prems(1) k])
  have d: "obo_dirty ?c1 (k div 4096)" using Cons.prems(5) by (intro obo_store_dirty) blast
  have v: "obo_view ?c1 u = obo_view c u" if "u < k" for u
  proof -
    have "u div 4096 \<noteq> k div 4096 \<or> obo_resident c (k div 4096)"
    proof (cases "obo_dirty c (k div 4096)")
      case False
      then have "k mod 4096 = 0" using Cons.prems(5) by simp
      then have "u < k div 4096 * 4096" using that by (metis add.right_neutral div_mult_mod_eq)
      then show ?thesis using less_mult_imp_div_less by fastforce
    qed (simp add: obo_dirty_resident)
    then show ?thesis using that obo_store_view [OF Cons.prems(1,4) k, of b u] by auto
  qed
  have above: "obo_view ?c1 u = obo_view c u" if "k div 4096 < u div 4096" for u
  proof -
    have "u \<noteq> k" using that by auto
    then show ?thesis using that obo_store_view [OF Cons.prems(1,4) k, of b u] by simp
  qed
  have vk: "obo_view ?c1 k = b" using obo_store_view [OF Cons.prems(1,4) k, of b k] by simp
  show ?case
  proof (cases "bs = []")
    case True
    then show ?thesis using ok d v above vk obo_dirty_coherent [OF d] by simp
  next
    case False
    have next_page: "Suc k mod 4096 = 0 \<and> \<not> obo_resident ?c1 (Suc k div 4096) \<or> obo_dirty ?c1 (Suc k div 4096)"
      using d obo_dirty_resident [OF d] by (simp add: div_Suc)
    have room: "Suc k + length bs \<le> length (backing ?c1) * 4096" using Cons.prems(2) by simp
    obtain c' where c': "obo_run (fill (Suc k) bs) ?c1 = ([], c')" "obo_ok c'"
      "obo_coherent c'" "length (backing c') = length (backing ?c1)"
      "obo_dirty c' ((Suc k + length bs - 1) div 4096)"
      "\<forall>u < Suc k. obo_view c' u = obo_view ?c1 u"
      "\<forall>u. (Suc k + length bs - 1) div 4096 < u div 4096 \<longrightarrow> obo_view c' u = obo_view ?c1 u"
      "\<forall>i < length bs. obo_view c' (Suc k + i) = bs ! i"
      using Cons.IH [OF ok room False obo_dirty_coherent [OF d] next_page] by blast
    have "obo_view c' (k + i) = (b # bs) ! i" if "i < length (b # bs)" for i
      using that c'(6,8) vk by (cases i) auto
    moreover have "obo_view c' u = obo_view c u" if "(k + length (b # bs) - 1) div 4096 < u div 4096" for u
    proof -
      have "k div 4096 \<le> (k + length bs) div 4096" by (rule div_le_mono) simp
      then show ?thesis using that c'(7) above by simp
    qed
    ultimately show ?thesis using c'(1-6) v by simp
  qed
qed simp

lemma obo_fill_read:
  assumes "obo_ok c" "cached c = None" "length bs = length (backing c) * 4096"
    "\<forall>t \<in> set ts. t < length bs"
  shows "fst (obo_run (fill 0 bs @ map Load ts) c) = map (\<lambda>t. bs ! t) ts"
proof (cases "bs = []")
  case False
  have "obo_coherent c" "\<not> obo_resident c (0 div 4096)"
    using assms(2) by (simp_all add: obo_coherent_def obo_resident_def)
  then obtain c' where c': "obo_run (fill 0 bs) c = ([], c')" "obo_ok c'" "obo_coherent c'"
    "length (backing c') = length (backing c)" "\<forall>i < length bs. obo_view c' (0 + i) = bs ! i"
    using obo_fill [OF assms(1), of 0 bs] assms(3) False by auto
  have "fst (obo_run (map Load ts) c') = map (obo_view c') ts"
    by (rule obo_loads [OF c'(2,3)]) (use assms(3,4) c'(4) in simp)
  also have "\<dots> = map (\<lambda>t. bs ! t) ts" using assms(4) c'(5) by simp
  finally show ?thesis using c'(1) by (simp add: obo_run_append split_beta)
qed (use assms(4) in simp)

subsection \<open>Updates that are lost and pages that are stale\<close>

lemma obo_load_cached:
  "\<not> obo_resident c (t div 4096) \<Longrightarrow>
     cached (snd (obo_load t c)) = Some (t div 4096, False, backing (obo_evict c) ! (t div 4096))"
  "\<not> obo_resident c (t div 4096) \<Longrightarrow>
     last_page (snd (obo_load t c)) = backing (obo_evict c) ! (t div 4096)"
  "\<not> obo_resident c (t div 4096) \<Longrightarrow> backing (snd (obo_load t c)) = backing (obo_evict c)"
  by (simp_all add: obo_load_def obo_touch_def obo_fault_def Let_def)

lemma obo_clean_after_load:
  assumes "obo_ok c" "obo_coherent c" "\<not> obo_dirty c (t div 4096)"
  obtains pg where "cached (snd (obo_load t c)) = Some (t div 4096, False, pg)"
    "pg = backing (snd (obo_load t c)) ! (t div 4096)"
proof (cases "obo_resident c (t div 4096)")
  case True
  then obtain d pg where pg: "cached c = Some (t div 4096, d, pg)" by (rule obo_residentE)
  then have "\<not> d" using assms(3) by (auto simp: obo_dirty_def)
  then have "pg = backing c ! (t div 4096)" using assms(2) pg by (auto simp: obo_coherent_def)
  then show ?thesis using that [of pg] pg \<open>\<not> d\<close> True by (simp add: obo_load_def obo_touch_def)
next
  case False
  then show ?thesis using that by (simp add: obo_load_cached)
qed

text \<open>
  A store to a page that a load brought in lives until the page is dropped: the fault on another
  page drops it without saving.
\<close>

lemma obo_lost_update:
  assumes "obo_ok c" "obo_coherent c" "\<not> obo_dirty c (t div 4096)"
    "t < length (backing c) * 4096" "u < length (backing c) * 4096" "u div 4096 \<noteq> t div 4096"
  shows "fst (obo_run [Load t, Store t b, Load t, Load u, Load t] c) =
    [obo_view c t, b, obo_view c u, obo_view c t]"
proof -
  let ?i = "t div 4096" and ?c1 = "snd (obo_load t c)"
  obtain pg where pg: "cached ?c1 = Some (?i, False, pg)" "pg = backing ?c1 ! ?i"
    using obo_clean_after_load [OF assms(1-3)] .
  note L = obo_load_spec [OF assms(1,2,4)]
  have len: "length pg = 4096" using page_lengths(3) [OF L(2) pg(1)] .
  let ?c2 = "?c1\<lparr>cached := Some (?i, False, pg[t mod 4096 := b])\<rparr>"
  have st: "obo_store t b ?c1 = ?c2"
    using pg(1) by (simp add: obo_store_def obo_touch_def obo_resident_def)
  have l2: "obo_load t ?c2 = (b, ?c2)"
    using len by (simp add: obo_load_def obo_touch_def obo_resident_def obo_view_def)
  let ?c3 = "?c1\<lparr>cached := None\<rparr>"
  have ev: "obo_evict ?c2 = ?c3" by (simp add: obo_evict_def)
  have ev1: "obo_evict ?c1 = ?c3" using pg(1) by (simp add: obo_evict_def)
  have view3: "backing ?c1 ! (v div 4096) ! (v mod 4096) = obo_view c v" for v
    using obo_evict_view [OF L(2,3), of v] L(4) [of v] unfolding ev1 by (simp add: obo_view_def)
  have nr: "\<not> obo_resident ?c2 (u div 4096)" using assms(6) by (simp add: obo_resident_def)
  let ?c4 = "snd (obo_load u ?c2)"
  have l4: "fst (obo_load u ?c2) = obo_view c u" "backing ?c4 = backing ?c1"
    "cached ?c4 = Some (u div 4096, False, backing ?c1 ! (u div 4096))"
    using nr ev view3 [of u] by (simp_all add: obo_load_cached)
      (simp add: obo_load_def obo_touch_def obo_view_def obo_fault_cached ev)
  have "obo_evict ?c4 = ?c4\<lparr>cached := None\<rparr>" using l4(3) by (simp add: obo_evict_def)
  then have l5: "fst (obo_load t ?c4) = obo_view c t"
    using assms(6) l4(2,3) view3 [of t]
    by (simp add: obo_load_def obo_touch_def obo_resident_def obo_view_def obo_fault_cached)
  show ?thesis
    by (simp add: L(1) st l2 l4(1) l5 split_beta Let_def)
qed

lemma obo_store_load:
  assumes "obo_ok c" "obo_coherent c" "t < length (backing c) * 4096" "v < length (backing c) * 4096"
    "v \<noteq> t" "v div 4096 = t div 4096" "\<not> obo_resident c (t div 4096)"
  shows "fst (obo_load v (obo_store t b c)) = last_page c ! (v mod 4096)"
proof -
  have d: "obo_dirty (obo_store t b c) (t div 4096)" by (rule obo_store_dirty) (simp add: assms(7))
  have "fst (obo_load v (obo_store t b c)) = obo_view (obo_store t b c) v"
    using obo_store_ok [OF assms(1,3)] obo_dirty_coherent [OF d] assms(4)
    by (intro obo_load_spec(1)) simp_all
  also have "\<dots> = last_page c ! (v mod 4096)"
    using obo_store_view [OF assms(1-3), of b v] assms(5-7) by simp
  finally show ?thesis .
qed

lemma obo_load_last:
  assumes "obo_ok c" "obo_coherent c" "\<not> obo_resident c (u div 4096)"
  shows "last_page (snd (obo_load u c)) ! (v mod 4096) = obo_view c (u div 4096 * 4096 + v mod 4096)"
  unfolding obo_evict_view [OF assms(1,2), symmetric]
  by (simp add: obo_load_cached(2) [OF assms(3)] obo_view_evicted)

text \<open>
  A store to a page that is not resident installs the page that was read last: the bytes of the
  page that are not stored to are those of the other page.
\<close>

lemma obo_stale:
  assumes "obo_ok c" "obo_coherent c" "t < length (backing c) * 4096"
    "u < length (backing c) * 4096" "v < length (backing c) * 4096" "v \<noteq> t"
    "u div 4096 \<noteq> t div 4096" "v div 4096 = t div 4096" "\<not> obo_resident c (u div 4096)"
  shows "fst (obo_run [Load u, Store t b, Load v] c) =
    [obo_view c u, obo_view c (u div 4096 * 4096 + v mod 4096)]"
proof -
  let ?c1 = "snd (obo_load u c)"
  note L = obo_load_spec [OF assms(1,2,4)] and C = obo_load_cached [OF assms(9)]
  have t: "t < length (backing ?c1) * 4096" "v < length (backing ?c1) * 4096"
    using assms(3,5) L(5) by simp_all
  have "\<not> obo_resident ?c1 (t div 4096)" using C(1) assms(7) by (simp add: obo_resident_def)
  from obo_store_load [OF L(2,3) t assms(6,8) this, of b] obo_load_last [OF assms(1,2,9), of v]
  show ?thesis using L(1) by (simp add: split_beta Let_def)
qed

end
