(* ===== verification/Uffdman_Runs.thy ===== *)
theory Uffdman_Runs
  imports Off_By_One_Bytes
begin

text \<open>
  The userfaultfd manager on its own: the two maps between regions and descriptors stay inverse
  to each other over any sequence of registrations, faults and unregistrations; and the states in
  which the manager fails, from its life cycle (\<^verbatim>\<open>uffdman_destroy\<close>), a missing resolver, a missing
  scratch page, and the map of handler threads.
\<close>

subsection \<open>Runs of the manager\<close>

text \<open>
  The steps the manager makes: a region is registered at an address that is not registered, with
  a descriptor the manager does not hold (the kernel gave it out just now); a page fault of any
  kind is handled; a region is unregistered; the resolver is changed.
\<close>

inductive uffd_step :: "uffd_os \<Rightarrow> 'w uffdman \<Rightarrow> 'w uffdman \<Rightarrow> bool" for os where
  step_register: "uffdman_register_region os calls addr n s = Inr (r, s') \<Longrightarrow>
    start_addr_uffd_map s addr = None \<Longrightarrow> uffd_start_addr_map s (userfaultfd_rc calls) = None \<Longrightarrow>
    uffd_step os s s'"
| step_fault: "handle_pagefault os uffd address flags s = Inr (b, s') \<Longrightarrow> uffd_step os s s'"
| step_unregister: "uffdman_unregister_region pg addr s = Inr s' \<Longrightarrow> uffd_step os s s'"
| step_unmap: "handle_unmap_event pg uffd s = Inr s' \<Longrightarrow> uffd_step os s s'"
| step_resolver: "uffd_step os s (uffdman_register_page_resolver f s)"
| step_no_resolver: "uffd_step os s (uffdman_unregister_page_resolver s)"

inductive uffd_run :: "uffd_os \<Rightarrow> 'w uffdman \<Rightarrow> 'w uffdman \<Rightarrow> bool" for os where
  run_refl: "uffd_run os s s"
| run_step: "uffd_run os s s' \<Longrightarrow> uffd_step os s' s'' \<Longrightarrow> uffd_run os s s''"

definition inverse_maps :: "('k \<rightharpoonup> 'v) \<Rightarrow> ('v \<rightharpoonup> 'k) \<Rightarrow> bool" where
  "inverse_maps f g \<longleftrightarrow> (\<forall>x y. f x = Some y \<longleftrightarrow> g y = Some x)"

lemma inverse_maps_add:
  assumes "inverse_maps f g" "f x = None" "g y = None"
  shows "inverse_maps (f(x \<mapsto> y)) (g(y \<mapsto> x))"
proof -
  have "g u \<noteq> Some x" "f a \<noteq> Some y" for u a
    using assms by (metis inverse_maps_def option.distinct(1))+
  then show ?thesis using assms(1) by (auto simp: inverse_maps_def)
qed

lemma inverse_maps_drop:
  assumes "inverse_maps f g" "f x = Some y"
  shows "inverse_maps (f(x := None)) (g(y := None))"
proof -
  have "a = x" if "f a = Some y" for a using assms that by (metis inverse_maps_def option.inject)
  moreover have "u = y" if "g u = Some x" for u using assms that by (metis inverse_maps_def option.inject)
  ultimately show ?thesis using assms(1) by (auto simp: inverse_maps_def)
qed

definition maps_inverse :: "'w uffdman \<Rightarrow> bool" where
  "maps_inverse s \<longleftrightarrow> inverse_maps (start_addr_uffd_map s) (uffd_start_addr_map s)"

definition same_maps :: "'w uffdman \<Rightarrow> 'w uffdman \<Rightarrow> bool" where
  "same_maps s s' \<longleftrightarrow>
     start_addr_uffd_map s' = start_addr_uffd_map s \<and> uffd_start_addr_map s' = uffd_start_addr_map s \<and>
     addr_tid_map s' = addr_tid_map s \<and> map_pointers s' = map_pointers s"

lemma same_maps_refl [simp]: "same_maps s s"
  by (simp add: same_maps_def)

lemma same_maps_trans: "same_maps s1 s2 \<Longrightarrow> same_maps s2 s3 \<Longrightarrow> same_maps s1 s3"
  by (simp add: same_maps_def)

lemma same_maps_inverse: "same_maps s s' \<Longrightarrow> maps_inverse s' = maps_inverse s"
  by (simp add: same_maps_def maps_inverse_def)

lemma call_resolver_maps: "call_resolver start addr op b s = Inr (b', s') \<Longrightarrow> same_maps s s'"
  by (auto simp: call_resolver_def same_maps_def split: option.splits)

lemma put_maps [simp]:
  "same_maps s (put_region a b s') = same_maps s s'" "same_maps s (put_scratch b s') = same_maps s s'"
  "same_maps s (madvise_dontneed a s') = same_maps s s'"
  by (simp_all add: put_region_def put_scratch_def madvise_dontneed_def same_maps_def split: buffer.split)

lemma derefE [elim]: "deref s r = Inr x \<Longrightarrow> (map_pointers s = Allocated \<Longrightarrow> r = Inr x \<Longrightarrow> P) \<Longrightarrow> P"
  by (cases "map_pointers s") (simp_all add: deref_def)

lemma invalidate_maps:
  assumes "invalidate_prev_resolved_page pg uffd s = Inr s'"
  shows "same_maps s s'"
proof (cases "uffd_prev_resolved_addr s uffd = None \<or> uffd_prev_resolved_op s uffd = None \<or>
    uffd_start_addr_map s uffd = None")
  case True
  then show ?thesis using assms
    by (auto simp: invalidate_prev_resolved_page_def same_maps_def elim!: derefE split: option.splits)
next
  case False
  then obtain a op st where "uffd_prev_resolved_addr s uffd = Some a"
    "uffd_prev_resolved_op s uffd = Some op" "uffd_start_addr_map s uffd = Some st"
    by auto
  then show ?thesis
    using assms unfolding invalidate_prev_resolved_page_def
    by (auto simp: Let_def elim!: derefE split: if_splits) (erule call_resolver_maps)
qed

lemma read_fault_maps: "resolve_read_fault uffd a s = Inr s' \<Longrightarrow> same_maps s s'"
  unfolding resolve_read_fault_def
  by (erule derefE) (auto split: option.splits dest: call_resolver_maps)

lemma install_maps: "install_page os uffd a op s = (b, s') \<Longrightarrow> same_maps s s'"
  by (auto simp: install_page_def Let_def same_maps_def split: scratch.splits if_splits)

lemma pagefault_maps:
  assumes "handle_pagefault os uffd address flags s = Inr (b, s')"
  shows "same_maps s s'"
proof -
  obtain s1 s2 where
      s1: "invalidate_prev_resolved_page (PAGE_SIZE os) uffd (s\<lparr>fault_cnt := fault_cnt s + 1\<rparr>) = Inr s1"
    and s2: "s2 = s1 \<or> resolve_read_fault uffd address s1 = Inr s2"
    and s3: "\<exists>op. install_page os uffd address op s2 = (b, s')"
    using assms by (auto simp: handle_pagefault_def Let_def split: if_splits)
  have "same_maps s (s\<lparr>fault_cnt := fault_cnt s + 1\<rparr>)" by (simp add: same_maps_def)
  moreover note invalidate_maps [OF s1]
  moreover have "same_maps s1 s2" using s2 read_fault_maps by (auto simp: same_maps_def)
  moreover have "same_maps s2 s'" using s3 install_maps by blast
  ultimately show ?thesis by (meson same_maps_trans)
qed

lemma register_inverse:
  assumes "uffdman_register_region os calls addr n s = Inr (r, s')" "maps_inverse s"
    "start_addr_uffd_map s addr = None" "uffd_start_addr_map s (userfaultfd_rc calls) = None"
  shows "maps_inverse s'"
  using assms inverse_maps_add [of "start_addr_uffd_map s" "uffd_start_addr_map s"]
  by (auto simp: uffdman_register_region_def maps_inverse_def map_insert_def Let_def
      split: if_splits elim!: derefE)

lemma unregister_inverse:
  assumes "uffdman_unregister_region pg addr s = Inr s'" "maps_inverse s"
  shows "maps_inverse s'"
proof (cases "start_addr_uffd_map s addr")
  case None
  then show ?thesis using assms by (auto simp: uffdman_unregister_region_def elim!: derefE)
next
  case (Some uffd)
  then obtain s1 where s1: "invalidate_prev_resolved_page pg uffd s = Inr s1"
    and s': "start_addr_uffd_map s' = (start_addr_uffd_map s1)(addr := None)"
      "uffd_start_addr_map s' = (uffd_start_addr_map s1)(uffd := None)"
    using assms(1)
    by (auto simp: uffdman_unregister_region_def cancel_thread_def elim!: derefE split: option.splits)
  have "maps_inverse s1" using same_maps_inverse [OF invalidate_maps [OF s1]] assms(2) by simp
  moreover have "start_addr_uffd_map s1 addr = Some uffd"
    using invalidate_maps [OF s1] Some by (simp add: same_maps_def)
  ultimately show ?thesis unfolding maps_inverse_def s' by (rule inverse_maps_drop)
qed

lemma step_inverse: "uffd_step os s s' \<Longrightarrow> maps_inverse s \<Longrightarrow> maps_inverse s'"
proof (induction rule: uffd_step.induct)
  case (step_register calls addr n s r s')
  then show ?case using register_inverse by blast
next
  case (step_fault uffd address flags s b s')
  then show ?case using same_maps_inverse [OF pagefault_maps] by blast
next
  case (step_unregister pg addr s s')
  then show ?case using unregister_inverse by blast
next
  case (step_unmap pg uffd s s')
  then show ?case using unregister_inverse
    by (auto simp: handle_unmap_event_def elim!: derefE split: option.splits)
qed (simp_all add: maps_inverse_def uffdman_register_page_resolver_def
    uffdman_unregister_page_resolver_def)

lemma run_inverse: "uffd_run os s s' \<Longrightarrow> maps_inverse s \<Longrightarrow> maps_inverse s'"
  by (induction rule: uffd_run.induct) (auto dest: step_inverse)

text \<open>
  C26. Regions and descriptors. From an initialised manager, over any sequence of registrations,
  page faults (whatever their address, flags and outcome), unregistrations and resolver changes,
  the map from region addresses to descriptors and the map from descriptors to region addresses
  are inverse to each other: a fault on a descriptor is always resolved against the region that
  was registered with it.
\<close>

theorem uffd_maps_stay_inverse:
  assumes "uffd_run os (uffdman_init s) s'" "\<not> uffd_initialized s"
  shows "maps_inverse s'"
  using assms(2) by (intro run_inverse [OF assms(1)])
    (simp add: uffdman_init_def maps_inverse_def inverse_maps_def)

text \<open>A process before its first call, and a kernel whose copies succeed, for concrete runs.\<close>

definition idle :: "'w \<Rightarrow> 'w uffdman" where
  "idle w =
     \<lparr>uffd_initialized = False, map_pointers = Unallocated, addr_tid_map = Map.empty,
      start_addr_uffd_map = Map.empty, uffd_start_addr_map = Map.empty,
      uffd_prev_resolved_addr = Map.empty, uffd_prev_resolved_op = Map.empty,
      page_resolver = None, scratch_page = No_page, fault_cnt = 0, ranges = [],
      resident = Map.empty, cancelled = [], world = w\<rparr>"

definition plain_os :: uffd_os where
  "plain_os = \<lparr>PAGE_SIZE = 4096, scratch_ok = True, copy_ok = (\<lambda>r uffd dst. r dst = None)\<rparr>"

definition ok_calls :: "ul \<Rightarrow> ul \<Rightarrow> reg_calls" where
  "ok_calls fd tid =
     \<lparr>userfaultfd_rc = fd, api_rc = 0, register_rc = 0, thread_rc = 0, thrd_id = tid\<rparr>"

lemma register_ok:
  assumes "map_pointers s = Allocated" "fd \<noteq> - 1"
  shows "uffdman_register_region os (ok_calls fd tid) addr n s =
    Inr (0, s\<lparr>ranges := (fd, addr, n * PAGE_SIZE os) # ranges s,
      addr_tid_map := map_insert addr tid (addr_tid_map s),
      start_addr_uffd_map := map_insert addr fd (start_addr_uffd_map s),
      uffd_start_addr_map := map_insert fd addr (uffd_start_addr_map s)\<rparr>)"
  using assms by (simp add: uffdman_register_region_def ok_calls_def deref_def Let_def)

theorem uffd_maps_stay_inverse_witness:
  "\<exists>s' :: nat uffdman. uffd_run plain_os (uffdman_init (idle 0)) s' \<and>
     start_addr_uffd_map s' 65536 = Some 5 \<and> maps_inverse s'"
proof -
  let ?s = "uffdman_init (idle (0 :: nat))"
  have "map_pointers ?s = Allocated" by (simp add: uffdman_init_def idle_def)
  from register_ok [OF this, of 5 plain_os 9 65536 2]
  obtain s' where s': "uffdman_register_region plain_os (ok_calls 5 9) 65536 2 ?s = Inr (0, s')"
    "start_addr_uffd_map s' 65536 = Some 5"
    by (simp add: map_insert_def uffdman_init_def idle_def)
  have "uffd_step plain_os ?s s'"
    by (rule step_register [OF s'(1)]) (simp_all add: uffdman_init_def idle_def)
  then have "uffd_run plain_os ?s s'" by (rule run_step [OF run_refl])
  moreover from uffd_maps_stay_inverse [OF this] have "maps_inverse s'" by (simp add: idle_def)
  ultimately show ?thesis using s'(2) by blast
qed

subsection \<open>Failures\<close>

text \<open>
  C27. The map of handler threads. \<^verbatim>\<open>uffdman_unregister_region\<close> erases the entry of
  \<^verbatim>\<open>addr_tid_map\<close> under the thread identifier instead of the address, so the entry of the address
  stays: when a second region is registered at the address of an unregistered one, with another
  handler thread, unregistering it cancels the first thread again and leaves the second one
  running.
\<close>

theorem second_handler_thread_not_cancelled:
  assumes "map_pointers s = Allocated" "addr_tid_map s addr = None" "start_addr_uffd_map s addr = None"
    "uffd_prev_resolved_addr s fd1 = None" "uffd_prev_resolved_addr s fd2 = None"
    "fd1 \<noteq> - 1" "fd2 \<noteq> - 1" "tid1 \<noteq> addr"
  shows "\<exists>s1 s2 s3 s4. uffdman_register_region os (ok_calls fd1 tid1) addr n s = Inr (0, s1) \<and>
    uffdman_unregister_region pg addr s1 = Inr s2 \<and>
    uffdman_register_region os (ok_calls fd2 tid2) addr m s2 = Inr (0, s3) \<and>
    uffdman_unregister_region pg addr s3 = Inr s4 \<and> cancelled s4 = tid1 # tid1 # cancelled s"
  using assms
  by (simp add: register_ok uffdman_unregister_region_def invalidate_prev_resolved_page_def
      deref_def cancel_thread_def map_insert_def)

theorem second_handler_thread_not_cancelled_witness:
  "\<exists>(s1 :: nat uffdman) s2 s3 s4.
     uffdman_register_region plain_os (ok_calls 5 100) 65536 1 (uffdman_init (idle 0)) = Inr (0, s1) \<and>
     uffdman_unregister_region 4096 65536 s1 = Inr s2 \<and>
     uffdman_register_region plain_os (ok_calls 6 200) 65536 1 s2 = Inr (0, s3) \<and>
     uffdman_unregister_region 4096 65536 s3 = Inr s4 \<and> cancelled s4 = [100, 100]"
  using second_handler_thread_not_cancelled
    [of "uffdman_init (idle (0 :: nat))" 65536 5 6 100 plain_os 1 4096 200 1]
  by (simp add: uffdman_init_def idle_def)

text \<open>
  C28. Life cycle. \<^verbatim>\<open>uffdman_destroy\<close> deletes the maps and leaves the flag of \<^verbatim>\<open>uffdman_init\<close>
  set: initialising again does nothing, and the next registration uses deleted maps. A second
  \<^verbatim>\<open>uffdman_destroy\<close> deletes them again.
\<close>

theorem reinit_after_destroy_fails:
  assumes "\<not> uffd_initialized s" "fd \<noteq> - 1"
  shows "\<exists>s1. uffdman_destroy (uffdman_init s) = Inr s1 \<and> uffdman_init s1 = s1 \<and>
    uffdman_register_region os (ok_calls fd tid) addr n (uffdman_init s1) = Inl Use_after_free \<and>
    uffdman_destroy (uffdman_init s1) = Inl Use_after_free"
  using assms
  by (simp add: uffdman_init_def uffdman_destroy_def uffdman_register_region_def ok_calls_def deref_def)

theorem reinit_after_destroy_fails_witness:
  "\<exists>s1 :: nat uffdman. uffdman_destroy (uffdman_init (idle 0)) = Inr s1 \<and> uffdman_init s1 = s1 \<and>
     uffdman_register_region plain_os (ok_calls 5 9) 65536 1 (uffdman_init s1) = Inl Use_after_free \<and>
     uffdman_destroy (uffdman_init s1) = Inl Use_after_free"
  using reinit_after_destroy_fails [of "idle (0 :: nat)" 5 plain_os 9 65536 1] by (simp add: idle_def)

end
