(* ===== verification/Handler_Threads.thy ===== *)
theory Handler_Threads
  imports Uffdman_Runs
begin

text \<open>
  The handler threads of several regions side by side. A thread waits in \<^verbatim>\<open>poll\<close>, reads an event
  into the message buffer \<^verbatim>\<open>msg\<close>, takes the address and the kind of the fault from that buffer,
  locks \<^verbatim>\<open>fault_handler_cr\<close>, handles the fault, and unlocks when the guard leaves its scope. The
  buffer is a static variable, one for all threads; \<open>own\<close> remembers, for the statements only, which
  event the kernel gave to which thread. The second relation adds the thread that calls the
  \<^verbatim>\<open>malloc\<close> of the preload library, which shares the mutex and unlocks it twice.
\<close>

subsection \<open>Threads\<close>

datatype handler_pc =
    In_poll
  | Got_msg
  | Decoded ul ul
  | In_section ul ul
  | Ended

datatype malloc_pc = Malloc_out | Malloc_locked | Malloc_unlocked

record 'w threads =
  msg :: uffd_event
  own :: "ul \<Rightarrow> uffd_event"
  cr_locked :: bool
  pcs :: "ul \<Rightarrow> handler_pc"
  mpc :: malloc_pc
  man :: "'w uffdman"

definition in_section :: "handler_pc \<Rightarrow> bool" where
  "in_section pc \<longleftrightarrow> (case pc of In_section a f \<Rightarrow> True | _ \<Rightarrow> False)"

lemma in_section_simps [simp]:
  "\<not> in_section In_poll" "\<not> in_section Got_msg" "\<not> in_section (Decoded a f)"
  "in_section (In_section a f)" "\<not> in_section Ended"
  by (simp_all add: in_section_def)

inductive handler_step :: "uffd_os \<Rightarrow> 'w threads \<Rightarrow> 'w threads \<Rightarrow> bool" for os where
  read_event: "pcs s u = In_poll \<Longrightarrow>
    handler_step os s (s\<lparr>msg := ev, own := (own s)(u := ev), pcs := (pcs s)(u := Got_msg)\<rparr>)"
| no_event: "pcs s u = In_poll \<Longrightarrow> handler_step os s (s\<lparr>pcs := (pcs s)(u := Ended)\<rparr>)"
| unmap_event: "pcs s u = Got_msg \<Longrightarrow> msg s = Event_unmap \<Longrightarrow>
    handler_step os s (s\<lparr>pcs := (pcs s)(u := In_poll)\<rparr>)"
| other_event: "pcs s u = Got_msg \<Longrightarrow> msg s = Event_other \<Longrightarrow>
    handler_step os s (s\<lparr>pcs := (pcs s)(u := Ended)\<rparr>)"
| decode: "pcs s u = Got_msg \<Longrightarrow> msg s = Event_pagefault a f \<Longrightarrow>
    handler_step os s (s\<lparr>pcs := (pcs s)(u := Decoded a f)\<rparr>)"
| lock: "pcs s u = Decoded a f \<Longrightarrow> \<not> cr_locked s \<Longrightarrow>
    handler_step os s (s\<lparr>cr_locked := True, pcs := (pcs s)(u := In_section a f)\<rparr>)"
| leave: "pcs s u = In_section a f \<Longrightarrow> handle_pagefault os u a f (man s) = Inr (continue, m') \<Longrightarrow>
    handler_step os s (s\<lparr>cr_locked := False, man := m',
      pcs := (pcs s)(u := if continue then In_poll else Ended)\<rparr>)"

inductive_cases handler_stepE: "handler_step os s s'"

inductive handler_run :: "uffd_os \<Rightarrow> 'w threads \<Rightarrow> 'w threads \<Rightarrow> bool" for os where
  hrun_refl: "handler_run os s s"
| hrun_step: "handler_step os s s1 \<Longrightarrow> handler_run os s1 s2 \<Longrightarrow> handler_run os s s2"

text \<open>
  The locking of \<^verbatim>\<open>malloc\<close>: the guard locks, the allocation \<open>alloc\<close> changes the manager,
  \<^verbatim>\<open>fault_handler_cr.unlock()\<close> unlocks, and the guard unlocks again when the function returns.
\<close>

inductive malloc_step ::
  "uffd_os \<Rightarrow> ('w uffdman \<Rightarrow> 'w uffdman outcome) \<Rightarrow> 'w threads \<Rightarrow> 'w threads \<Rightarrow> bool" for os alloc where
  handler: "handler_step os s s' \<Longrightarrow> malloc_step os alloc s s'"
| guard: "mpc s = Malloc_out \<Longrightarrow> \<not> cr_locked s \<Longrightarrow>
    malloc_step os alloc s (s\<lparr>cr_locked := True, mpc := Malloc_locked\<rparr>)"
| unlock: "mpc s = Malloc_locked \<Longrightarrow> alloc (man s) = Inr m' \<Longrightarrow>
    malloc_step os alloc s (s\<lparr>cr_locked := False, man := m', mpc := Malloc_unlocked\<rparr>)"
| unguard: "mpc s = Malloc_unlocked \<Longrightarrow>
    malloc_step os alloc s (s\<lparr>cr_locked := False, mpc := Malloc_out\<rparr>)"

inductive malloc_run ::
  "uffd_os \<Rightarrow> ('w uffdman \<Rightarrow> 'w uffdman outcome) \<Rightarrow> 'w threads \<Rightarrow> 'w threads \<Rightarrow> bool" for os alloc where
  mrun_refl: "malloc_run os alloc s s"
| mrun_step: "malloc_step os alloc s s1 \<Longrightarrow> malloc_run os alloc s1 s2 \<Longrightarrow> malloc_run os alloc s s2"

definition all_polling :: "'w threads \<Rightarrow> bool" where
  "all_polling s \<longleftrightarrow> (\<forall>u. pcs s u = In_poll) \<and> \<not> cr_locked s \<and> mpc s = Malloc_out"

subsection \<open>Mutual exclusion\<close>

definition section_inv :: "'w threads \<Rightarrow> bool" where
  "section_inv s \<longleftrightarrow>
     (\<forall>u. in_section (pcs s u) \<longrightarrow> cr_locked s) \<and>
     (\<forall>u v. in_section (pcs s u) \<longrightarrow> in_section (pcs s v) \<longrightarrow> u = v)"

lemma section_inv_step: "handler_step os s s' \<Longrightarrow> section_inv s \<Longrightarrow> section_inv s'"
  by (erule handler_stepE) (auto simp: section_inv_def split: if_splits)

lemma section_inv_run: "handler_run os s s' \<Longrightarrow> section_inv s \<Longrightarrow> section_inv s'"
  by (induction rule: handler_run.induct) (auto dest: section_inv_step)

text \<open>
  C35. Mutual exclusion of the handlers. Whatever the interleaving of the handler threads, as long
  as only they use the mutex, no two of them are ever inside the part that handles a fault, and
  whoever is inside holds the mutex: faults are handled one after the other.
\<close>

theorem handlers_exclusive:
  assumes "handler_run os s s'" "all_polling s" "in_section (pcs s' u)" "in_section (pcs s' v)"
  shows "u = v \<and> cr_locked s'"
proof -
  have "section_inv s" using assms(2) by (simp add: section_inv_def all_polling_def)
  then have "section_inv s'" by (rule section_inv_run [OF assms(1)])
  then show ?thesis using assms(3,4) unfolding section_inv_def by blast
qed

text \<open>Two regions of one page each, for concrete runs.\<close>

definition ready_regions :: "nat uffdman" where
  "ready_regions = (uffdman_init (idle 0))\<lparr>uffd_start_addr_map := [5 \<mapsto> 65536, 6 \<mapsto> 131072],
     start_addr_uffd_map := [65536 \<mapsto> 5, 131072 \<mapsto> 6], scratch_page := Page (replicate 4096 0),
     ranges := [(5, 65536, 4096), (6, 131072, 4096)]\<rparr>"

definition two_threads :: "nat threads" where
  "two_threads =
     \<lparr>msg = Event_other, own = (\<lambda>_. Event_other), cr_locked = False, pcs = (\<lambda>_. In_poll), mpc = Malloc_out,
      man = ready_regions\<rparr>"

lemma all_polling_two [simp]: "all_polling two_threads"
  by (simp add: all_polling_def two_threads_def)

text \<open>A thread that reads and decodes an event with nobody in between.\<close>

lemma take_event:
  assumes "pcs s u = In_poll"
  shows "handler_run os s (s\<lparr>msg := Event_pagefault a f, own := (own s)(u := Event_pagefault a f), pcs := (pcs s)(u := Decoded a f)\<rparr>)"
proof -
  let ?s1 = "s\<lparr>msg := Event_pagefault a f, own := (own s)(u := Event_pagefault a f), pcs := (pcs s)(u := Got_msg)\<rparr>"
  have "handler_step os s ?s1" by (rule read_event [OF assms])
  moreover have "pcs ?s1 u = Got_msg" "msg ?s1 = Event_pagefault a f" by simp_all
  from decode [OF this, of os] have "handler_run os ?s1 (s\<lparr>msg := Event_pagefault a f, own := (own s)(u := Event_pagefault a f), pcs := (pcs s)(u := Decoded a f)\<rparr>)"
    by (auto intro!: hrun_step [OF _ hrun_refl])
  ultimately show ?thesis by (rule hrun_step)
qed

lemma handler_run_trans: "handler_run os s s1 \<Longrightarrow> handler_run os s1 s2 \<Longrightarrow> handler_run os s s2"
  by (induction rule: handler_run.induct) (auto intro: hrun_step)

lemma enter_section:
  assumes "pcs s u = In_poll" "\<not> cr_locked s"
  shows "handler_run os s (s\<lparr>msg := Event_pagefault a f, own := (own s)(u := Event_pagefault a f), cr_locked := True,
    pcs := (pcs s)(u := In_section a f)\<rparr>)"
proof -
  let ?s1 = "s\<lparr>msg := Event_pagefault a f, own := (own s)(u := Event_pagefault a f), pcs := (pcs s)(u := Decoded a f)\<rparr>"
  have "pcs ?s1 u = Decoded a f" "\<not> cr_locked ?s1" using assms(2) by simp_all
  from lock [OF this, of os]
  have "handler_run os ?s1 (?s1\<lparr>cr_locked := True, pcs := (pcs ?s1)(u := In_section a f)\<rparr>)"
    by (rule hrun_step [OF _ hrun_refl])
  with take_event [OF assms(1), of os a f] show ?thesis
    by (auto dest: handler_run_trans)
qed

theorem handlers_exclusive_witness:
  "\<exists>s'. handler_run plain_os two_threads s' \<and> in_section (pcs s' 5) \<and> cr_locked s'"
proof -
  have "pcs two_threads 5 = In_poll" "\<not> cr_locked two_threads" by (simp_all add: two_threads_def)
  from enter_section [OF this, of plain_os 65536 0]
  obtain s' where s': "handler_run plain_os two_threads s'" "in_section (pcs s' 5)" by auto
  from handlers_exclusive [OF s'(1) all_polling_two s'(2) s'(2)] show ?thesis using s' by blast
qed

subsection \<open>The shared message buffer\<close>

text \<open>\<^verbatim>\<open>UFFDIO_COPY\<close> fails with EEXIST when the destination page is there already.\<close>

definition copy_refuses_resident :: "uffd_os \<Rightarrow> bool" where
  "copy_refuses_resident os \<longleftrightarrow> (\<forall>r uffd dst. r dst \<noteq> None \<longrightarrow> \<not> copy_ok os r uffd dst)"

lemma first_write_fault:
  assumes "map_pointers m = Allocated" "uffd_prev_resolved_addr m u = None" "scratch_page m = Page pg"
  shows "handle_pagefault os u a 1 m =
    Inr (install_page os u a 1 (m\<lparr>fault_cnt := fault_cnt m + 1\<rparr>))"
  using assms
  by (simp add: handle_pagefault_def invalidate_prev_resolved_page_def deref_def Let_def
      UFFD_PAGEFAULT_FLAG_WRITE_def)

text \<open>
  C36. The message race. Two handler threads read their events, a fault at a1 for the thread of u1
  and a write fault at a2 for the thread of u2, before either decodes the buffer they share. Then
  both take the fault at a2: the thread of u1 installs the page of a2, which the kernel allows since
  the page is registered, notes it as the page resolved last in its own region and polls again; the
  thread of u2 finds the page resident, its copy fails, and it leaves its loop for good. The page of
  a1 is still missing, and the kernel does not report the fault again.
\<close>

theorem shared_message_race:
  assumes "all_polling s" "u1 \<noteq> u2" "map_pointers (man s) = Allocated"
    "uffd_prev_resolved_addr (man s) u1 = None" "uffd_prev_resolved_addr (man s) u2 = None"
    "scratch_page (man s) = Page pg" "uffd_os_ok os" "copy_refuses_resident os"
    "p1 = PGROUNDDOWN (PAGE_SIZE os) a1" "p2 = PGROUNDDOWN (PAGE_SIZE os) a2" "p1 \<noteq> p2"
    "owner (man s) p1 = Some u1" "owner (man s) p2 = Some u2"
    "resident (man s) p1 = None" "resident (man s) p2 = None"
  shows "\<exists>s'. handler_run os s s' \<and>
    own s' u1 = Event_pagefault a1 f1 \<and> own s' u2 = Event_pagefault a2 1 \<and>
    pcs s' u1 = In_poll \<and> pcs s' u2 = Ended \<and> \<not> cr_locked s' \<and>
    resident (man s') = (resident (man s))(p2 \<mapsto> pg) \<and> resident (man s') p1 = None \<and>
    uffd_prev_resolved_addr (man s') u1 = Some p2 \<and> uffd_prev_resolved_addr (man s') u2 = None"
proof -
  let ?e1 = "Event_pagefault a1 f1" and ?e2 = "Event_pagefault a2 1"
  let ?s1 = "s\<lparr>msg := ?e1, own := (own s)(u1 := ?e1), pcs := (pcs s)(u1 := Got_msg)\<rparr>"
  let ?s2 = "?s1\<lparr>msg := ?e2, own := (own ?s1)(u2 := ?e2), pcs := (pcs ?s1)(u2 := Got_msg)\<rparr>"
  let ?s3 = "?s2\<lparr>pcs := (pcs ?s2)(u1 := Decoded a2 1)\<rparr>"
  let ?s4 = "?s3\<lparr>cr_locked := True, pcs := (pcs ?s3)(u1 := In_section a2 1)\<rparr>"
  let ?m1 = "(man s)\<lparr>fault_cnt := fault_cnt (man s) + 1, resident := (resident (man s))(p2 \<mapsto> pg),
    uffd_prev_resolved_addr := (uffd_prev_resolved_addr (man s))(u1 \<mapsto> p2),
    uffd_prev_resolved_op := (uffd_prev_resolved_op (man s))(u1 \<mapsto> 1)\<rparr>"
  let ?s5 = "?s4\<lparr>cr_locked := False, man := ?m1, pcs := (pcs ?s4)(u1 := In_poll)\<rparr>"
  let ?s6 = "?s5\<lparr>pcs := (pcs ?s5)(u2 := Decoded a2 1)\<rparr>"
  let ?s7 = "?s6\<lparr>cr_locked := True, pcs := (pcs ?s6)(u2 := In_section a2 1)\<rparr>"
  let ?m2 = "?m1\<lparr>fault_cnt := fault_cnt ?m1 + 1\<rparr>"
  let ?s8 = "?s7\<lparr>cr_locked := False, man := ?m2, pcs := (pcs ?s7)(u2 := Ended)\<rparr>"
  have h1: "handle_pagefault os u1 a2 1 (man ?s4) = Inr (True, ?m1)"
    using first_write_fault [of "man s" u1 pg os a2] assms(3-7,10,13,15)
    by (simp add: install_page_def Let_def uffd_os_ok_def)
  have h2: "handle_pagefault os u2 a2 1 (man ?s7) = Inr (False, ?m2)"
    using first_write_fault [of ?m1 u2 pg os a2] assms(2,3,5,6,8,10)
    by (simp add: install_page_def Let_def copy_refuses_resident_def)
  have "handler_step os s ?s1" using assms(1) by (intro read_event) (simp add: all_polling_def)
  moreover have "handler_step os ?s1 ?s2"
    using assms(1,2) by (intro read_event) (simp add: all_polling_def)
  moreover have "handler_step os ?s2 ?s3" using decode [of ?s2 u1 a2 1 os] assms(2) by simp
  moreover have "handler_step os ?s3 ?s4"
    using assms(1) by (intro lock) (simp_all add: all_polling_def)
  moreover have "handler_step os ?s4 ?s5" using leave [OF _ h1] by simp
  moreover have "handler_step os ?s5 ?s6" using decode [of ?s5 u2 a2 1 os] assms(2) by simp
  moreover have "handler_step os ?s6 ?s7" by (intro lock) simp_all
  moreover have "handler_step os ?s7 ?s8" using leave [OF _ h2] by simp
  ultimately have "handler_run os s ?s8" by (intro hrun_step [OF _ hrun_refl] hrun_step)
  moreover have "own ?s8 u1 = ?e1" "own ?s8 u2 = ?e2" "pcs ?s8 u1 = In_poll" "pcs ?s8 u2 = Ended"
    "\<not> cr_locked ?s8" "resident (man ?s8) = (resident (man s))(p2 \<mapsto> pg)" "resident (man ?s8) p1 = None"
    "uffd_prev_resolved_addr (man ?s8) u1 = Some p2" "uffd_prev_resolved_addr (man ?s8) u2 = None"
    using assms(2,5,11,14) by simp_all
  ultimately show ?thesis by blast
qed

theorem shared_message_race_witness:
  "\<exists>s'. handler_run plain_os two_threads s' \<and> own s' 5 = Event_pagefault 65536 0 \<and>
     own s' 6 = Event_pagefault 131072 1 \<and> pcs s' 5 = In_poll \<and> pcs s' 6 = Ended \<and> \<not> cr_locked s' \<and>
     resident (man s') = (resident (man two_threads))(131072 \<mapsto> replicate 4096 0) \<and>
     resident (man s') 65536 = None \<and> uffd_prev_resolved_addr (man s') 5 = Some 131072 \<and>
     uffd_prev_resolved_addr (man s') 6 = None"
  by (rule shared_message_race [where ?a1.0 = 65536 and ?a2.0 = 131072])
    (simp_all add: two_threads_def ready_regions_def uffdman_init_def idle_def plain_os_def
      PGROUNDDOWN_def all_polling_def uffd_os_ok_def copy_refuses_resident_def range_owner_def)

subsection \<open>The mutex and malloc\<close>

lemma malloc_run_trans: "malloc_run os alloc s s1 \<Longrightarrow> malloc_run os alloc s1 s2 \<Longrightarrow> malloc_run os alloc s s2"
  by (induction rule: malloc_run.induct) (auto intro: mrun_step)

lemma handler_malloc_run: "handler_run os s s' \<Longrightarrow> malloc_run os alloc s s'"
  by (induction rule: handler_run.induct) (auto intro: mrun_refl mrun_step handler)

text \<open>
  C37. The second unlock. With a thread in the \<^verbatim>\<open>malloc\<close> of the preload library, mutual exclusion is
  lost: \<^verbatim>\<open>malloc\<close> unlocks, a handler thread locks, the guard of \<^verbatim>\<open>malloc\<close> unlocks the mutex the
  handler holds, and a second handler enters while the first is still inside.
\<close>

theorem double_unlock_breaks_exclusion:
  assumes "all_polling s" "u1 \<noteq> u2" "alloc (man s) = Inr m'"
  shows "\<exists>s'. malloc_run os alloc s s' \<and> in_section (pcs s' u1) \<and> in_section (pcs s' u2)"
proof -
  let ?ev = "Event_pagefault a f"
  let ?s1 = "s\<lparr>cr_locked := True, mpc := Malloc_locked\<rparr>"
  let ?s2 = "?s1\<lparr>cr_locked := False, man := m', mpc := Malloc_unlocked\<rparr>"
  let ?s3 = "?s2\<lparr>msg := ?ev, own := (own ?s2)(u1 := ?ev), cr_locked := True,
    pcs := (pcs ?s2)(u1 := In_section a f)\<rparr>"
  let ?s4 = "?s3\<lparr>cr_locked := False, mpc := Malloc_out\<rparr>"
  let ?s5 = "?s4\<lparr>msg := ?ev, own := (own ?s4)(u2 := ?ev), cr_locked := True,
    pcs := (pcs ?s4)(u2 := In_section a f)\<rparr>"
  have "malloc_step os alloc s ?s1" using assms(1) by (intro guard) (simp_all add: all_polling_def)
  moreover have "malloc_step os alloc ?s1 ?s2" by (rule unlock) (simp_all add: assms(3))
  moreover have "handler_run os ?s2 ?s3"
    using assms(1) by (intro enter_section) (simp_all add: all_polling_def)
  moreover have "malloc_step os alloc ?s3 ?s4" by (rule unguard) simp
  moreover have "handler_run os ?s4 ?s5"
    using assms by (intro enter_section) (simp_all add: all_polling_def)
  ultimately have "malloc_run os alloc s ?s5"
    by (meson malloc_run_trans handler_malloc_run mrun_step mrun_refl)
  moreover have "in_section (pcs ?s5 u1)" "in_section (pcs ?s5 u2)" using assms(2) by simp_all
  ultimately show ?thesis by blast
qed

text \<open>An allocation as \<^verbatim>\<open>malloc\<close> makes it, the registration of a region of one page.\<close>

definition register_one :: "nat uffdman \<Rightarrow> nat uffdman outcome" where
  "register_one m =
     ebind (uffdman_register_region plain_os (ok_calls 7 9) 196608 1 m) (\<lambda>(_, m'). Inr m')"

theorem double_unlock_breaks_exclusion_witness:
  "\<exists>s'. malloc_run plain_os register_one two_threads s' \<and> in_section (pcs s' 5) \<and> in_section (pcs s' 6)"
proof -
  have "map_pointers (man two_threads) = Allocated"
    by (simp add: two_threads_def ready_regions_def uffdman_init_def idle_def)
  from register_ok [OF this, of 7 plain_os 9 196608 1]
  obtain m' where "register_one (man two_threads) = Inr m'" by (auto simp: register_one_def)
  from double_unlock_breaks_exclusion [of two_threads 5 6 register_one, OF _ _ this] show ?thesis by simp
qed

end
