(* ===== verification/RMP_Client.thy ===== *)
theory RMP_Client
  imports RMP_Types Uffdman
begin

text \<open>
  The client library, \<^verbatim>\<open>client/rmp_client.cpp\<close> and \<^verbatim>\<open>include/rmp_client.hpp\<close>. The record
  \<open>client\<close> holds its globals; the state of the whole client process is a userfaultfd manager
  (\<^verbatim>\<open>Uffdman\<close>) whose world is a client. The peer behind the socket is a parameter: \<open>exchange\<close>
  sends a packet and receives the answer (\<^const>\<open>None\<close> when nothing was received) over the
  state \<open>'n\<close> of the network and the server. The packets the functions declare on the stack are
  not initialised: their previous contents, \<open>garbage_send\<close> and \<open>garbage_recv\<close>, are parameters.

  The macros \<^verbatim>\<open>printf\<close> and \<^verbatim>\<open>err\<close> expand to nothing unless DEBUG_PRINTS is set, and \<^verbatim>\<open>print_stmt\<close>
  is the empty string, so the tracing calls have no effect here.
\<close>

subsection \<open>State\<close>

record rmp_config =
  cfg_addr :: string
  cfg_port :: ul

record 'n client =
  server_config :: rmp_config
  socketfd :: int
  connected :: bool
  addr_hndl_map :: "(ul \<rightharpoonup> handle) option"
  addr_npages_map :: "(ul \<rightharpoonup> ul) option"
  net :: 'n

record 'n client_env =
  os :: uffd_os
  exchange :: "packet \<Rightarrow> 'n \<Rightarrow> packet option \<times> 'n"
  garbage_send :: packet
  garbage_recv :: packet

type_synonym 'n client_proc = "'n client uffdman"

definition page_size :: "'n client_env \<Rightarrow> ul" where
  "page_size e = PAGE_SIZE (os e)"

text \<open>\<^verbatim>\<open>memcpy\<close> of one system page between the array \<^verbatim>\<open>data\<close> (4096 bytes) and a page buffer.\<close>

definition copy_out :: "'n client_env \<Rightarrow> page \<Rightarrow> buffer \<Rightarrow> page outcome" where
  "copy_out e arr b =
     (let n = unat (page_size e)
      in if n > 4096 then Inl Buffer_overflow
         else case b of
                Buf pg \<Rightarrow> Inr (take n pg @ drop n arr)
              | Missing \<Rightarrow> Inl Hang
              | Bad_pointer \<Rightarrow> Inl Segv)"

definition copy_in :: "'n client_env \<Rightarrow> page \<Rightarrow> buffer \<Rightarrow> buffer outcome" where
  "copy_in e arr b =
     (let n = unat (page_size e)
      in if n > 4096 then Inl Buffer_overflow
         else case b of
                Buf pg \<Rightarrow> Inr (Buf (take n arr @ drop n pg))
              | Missing \<Rightarrow> Inl Hang
              | Bad_pointer \<Rightarrow> Inl Segv)"

definition transact :: "'n client_env \<Rightarrow> packet \<Rightarrow> 'n client \<Rightarrow> packet \<times> 'n client" where
  "transact e send_pkt c =
     (let (r, n') = exchange e send_pkt (net c)
      in (case r of None \<Rightarrow> garbage_recv e | Some p \<Rightarrow> p, c\<lparr>net := n'\<rparr>))"

subsection \<open>Pages\<close>

definition write_request :: "'n client_env \<Rightarrow> handle \<Rightarrow> ul \<Rightarrow> page \<Rightarrow> packet" where
  "write_request e h off d =
     (garbage_send e)\<lparr>action := 2, data := d, psize := ucast (page_size e), offset := ucast off,
       error := 0, hndl := h\<rparr>"

definition read_request :: "'n client_env \<Rightarrow> handle \<Rightarrow> ul \<Rightarrow> packet" where
  "read_request e h off =
     (garbage_send e)\<lparr>action := 1, offset := ucast off, psize := ucast (page_size e),
       error := 0, hndl := h\<rparr>"

definition rmp_write_page ::
  "'n client_env \<Rightarrow> handle \<Rightarrow> ul \<Rightarrow> buffer \<Rightarrow> 'n client \<Rightarrow> (buffer \<times> 'n client) outcome" where
  "rmp_write_page e h off b c =
     (if \<not> connected c then Inr (b, c)
      else ebind (copy_out e (data (garbage_send e)) b)
        (\<lambda>d. let (return_pkt, c') = transact e (write_request e h off d) c in Inr (b, c')))"

definition rmp_read_page ::
  "'n client_env \<Rightarrow> handle \<Rightarrow> ul \<Rightarrow> buffer \<Rightarrow> 'n client \<Rightarrow> (buffer \<times> 'n client) outcome" where
  "rmp_read_page e h off b c =
     (if \<not> connected c then Inr (b, c)
      else let (return_pkt, c') = transact e (read_request e h off) c
           in ebind (copy_in e (data return_pkt) b) (\<lambda>b'. Inr (b', c')))"

text \<open>
  \<^verbatim>\<open>floor(offset / PAGE_SIZE)\<close> divides two integers; the quotient of a 64-bit value by a page
  size of at least 2048 is below 2^53, so the way through \<^verbatim>\<open>double\<close> does not change it.
\<close>

definition rmp_pagefault_resovler :: "'n client_env \<Rightarrow> 'n client resolver" where
  "rmp_pagefault_resovler e start_addr faulting_addr is_write b c =
     (let off = (faulting_addr AND NOT (page_size e - 1)) - start_addr;
          page_offset = off div page_size e
      in case addr_hndl_map c of
           None \<Rightarrow> Inl Null_deref
         | Some m \<Rightarrow>
             (case m start_addr of
                None \<Rightarrow> Inl Out_of_range
              | Some h \<Rightarrow>
                  if is_write \<noteq> 0 then rmp_write_page e h page_offset b c
                  else rmp_read_page e h page_offset b c))"

subsection \<open>The class rmp::Client\<close>

definition client_new :: "rmp_config \<Rightarrow> 'n client_proc \<Rightarrow> 'n client_proc" where
  "client_new cnf s = s\<lparr>world := (world s)\<lparr>server_config := cnf\<rparr>\<rparr>"

definition rmp_init ::
  "'n client_env \<Rightarrow> int \<Rightarrow> int \<Rightarrow> 'n client_proc \<Rightarrow> int \<times> 'n client_proc" where
  "rmp_init e socket_fd connect_rc s =
     (let s1 = s\<lparr>world := (world s)\<lparr>socketfd := socket_fd\<rparr>\<rparr>
      in if socket_fd < 0 then (- 1, s1)
         else if connect_rc < 0 then (- 1, s1)
         else let s2 = s1\<lparr>world := (world s1)\<lparr>connected := True\<rparr>\<rparr>
              in if socketfd (world s2) = - 1 then (- 1, s2)
                 else let s3 = uffdman_register_page_resolver (rmp_pagefault_resovler e) (uffdman_init s2)
                      in (0, s3\<lparr>world := (world s3)\<lparr>addr_hndl_map := Some Map.empty,
                                                      addr_npages_map := Some Map.empty\<rparr>\<rparr>))"

definition alloc_request :: "'n client_env \<Rightarrow> u32 \<Rightarrow> packet" where
  "alloc_request e n =
     (garbage_send e)\<lparr>action := 0, npages := n, psize := ucast (page_size e)\<rparr>"

definition record_region :: "ul \<Rightarrow> handle \<Rightarrow> u32 \<Rightarrow> 'n client \<Rightarrow> 'n client outcome" where
  "record_region addr h n c =
     (case (addr_hndl_map c, addr_npages_map c) of
        (Some hm, Some nm) \<Rightarrow>
          Inr (c\<lparr>addr_hndl_map := Some (map_insert addr h hm),
                 addr_npages_map := Some (map_insert addr (ucast n) nm)\<rparr>)
      | _ \<Rightarrow> Inl Null_deref)"

text \<open>
  \<open>mmap_rc\<close> is the address the client's own \<^verbatim>\<open>mmap\<close> of \<^verbatim>\<open>npages * PAGE_SIZE\<close> bytes returns. The
  error field of the answer and the result of \<^verbatim>\<open>uffdman_register_region\<close> are not looked at.
\<close>

definition rmp_alloc ::
  "'n client_env \<Rightarrow> ul option \<Rightarrow> reg_calls \<Rightarrow> u32 \<Rightarrow> 'n client_proc \<Rightarrow> (ul \<times> 'n client_proc) outcome" where
  "rmp_alloc e mmap_rc calls n s =
     (case mmap_rc of
        None \<Rightarrow> Inr (- 1, s)
      | Some new_addr \<Rightarrow>
          if \<not> connected (world s) then Inr (0, s)
          else
            let (return_pkt, c1) = transact e (alloc_request e n) (world s)
            in ebind (uffdman_register_region (os e) calls new_addr (ucast n) (s\<lparr>world := c1\<rparr>))
                 (\<lambda>(_, s2). ebind (record_region new_addr (hndl return_pkt) n (world s2))
                    (\<lambda>c2. Inr (new_addr, s2\<lparr>world := c2\<rparr>))))"

text \<open>The body of \<^verbatim>\<open>rmp_free\<close> is empty: no request is sent, no region is given back.\<close>

definition rmp_free :: "handle \<Rightarrow> 'n client_proc \<Rightarrow> 'n client_proc" where
  "rmp_free h s = s"

definition rmp_read ::
  "'n client_env \<Rightarrow> handle \<Rightarrow> ul \<Rightarrow> buffer \<Rightarrow> 'n client \<Rightarrow> (buffer \<times> 'n client) outcome" where
  "rmp_read e h off b c = rmp_read_page e h off b c"

definition rmp_write ::
  "'n client_env \<Rightarrow> handle \<Rightarrow> ul \<Rightarrow> buffer \<Rightarrow> 'n client \<Rightarrow> (buffer \<times> 'n client) outcome" where
  "rmp_write e h off b c = rmp_write_page e h off b c"

end
