(* ===== verification/Remote_Memory.thy ===== *)
theory Remote_Memory
  imports Off_By_One_Bytes
begin

text \<open>
  The memory as the application sees it: a load or a store of a byte in a registered range
  whose page is not resident stops the thread, the kernel reports the fault on the descriptor of
  the range (with the address rounded down to the page, since the manager asks for no features),
  the handler thread serves it, and the access is done again. An access that stays without a
  page hangs. Inside the contract \<^verbatim>\<open>page_backing\<close> the theory proves that a run of accesses to a
  region is the run of the byte machine of \<^verbatim>\<open>Off_By_One_Bytes\<close>, and that it leaves what any other
  region holds alone. The scratch page of the manager is one for all regions: any interleaving of
  accesses to two regions is the run of two machines that share their last page.
\<close>

subsection \<open>Accesses\<close>

definition app_touch :: "uffd_os \<Rightarrow> bool \<Rightarrow> ul \<Rightarrow> 'w uffdman \<Rightarrow> (page \<times> 'w uffdman) outcome" where
  "app_touch os wr a s =
     (let p = PGROUNDDOWN (PAGE_SIZE os) a
      in case resident s p of
           Some pg \<Rightarrow> Inr (pg, s)
         | None \<Rightarrow>
             (case owner s a of
                None \<Rightarrow> Inl Segv
              | Some uffd \<Rightarrow>
                  ebind (handle_pagefault os uffd p (if wr then 1 else 0) s)
                    (\<lambda>(_, s'). case resident s' p of Some pg \<Rightarrow> Inr (pg, s') | None \<Rightarrow> Inl Hang)))"

definition app_load :: "uffd_os \<Rightarrow> ul \<Rightarrow> 'w uffdman \<Rightarrow> (byte \<times> 'w uffdman) outcome" where
  "app_load os a s =
     ebind (app_touch os False a s)
       (\<lambda>(pg, s'). Inr (pg ! unat (a - PGROUNDDOWN (PAGE_SIZE os) a), s'))"

definition app_store :: "uffd_os \<Rightarrow> ul \<Rightarrow> byte \<Rightarrow> 'w uffdman \<Rightarrow> 'w uffdman outcome" where
  "app_store os a b s =
     ebind (app_touch os True a s)
       (\<lambda>(pg, s'). let p = PGROUNDDOWN (PAGE_SIZE os) a
          in Inr (s'\<lparr>resident := (resident s')(p \<mapsto> pg[unat (a - p) := b])\<rparr>))"

fun app_run :: "uffd_os \<Rightarrow> ul access list \<Rightarrow> 'w uffdman \<Rightarrow> (byte list \<times> 'w uffdman) outcome" where
  "app_run os [] s = Inr ([], s)"
| "app_run os (Load a # as) s =
     ebind (app_load os a s)
       (\<lambda>(b, s1). ebind (app_run os as s1) (\<lambda>(bs, s2). Inr (b # bs, s2)))"
| "app_run os (Store a b # as) s = ebind (app_store os a b s) (app_run os as)"

text \<open>The accesses of a program to a region, given by offset.\<close>

definition at_region :: "ul \<Rightarrow> nat access list \<Rightarrow> ul access list" where
  "at_region start = map (map_access (\<lambda>t. start + of_nat t))"

lemma at_region_simps [simp]:
  "at_region start [] = []"
  "at_region start (Load t # as) = Load (start + of_nat t) # at_region start as"
  "at_region start (Store t b # as) = Store (start + of_nat t) b # at_region start as"
  by (simp_all add: at_region_def)

definition in_region :: "nat \<Rightarrow> nat access \<Rightarrow> bool" where
  "in_region n ac \<longleftrightarrow> (case ac of Load t \<Rightarrow> t < n | Store t b \<Rightarrow> t < n)"

lemma in_region_simps [simp]:
  "in_region n (Load t) \<longleftrightarrow> t < n" "in_region n (Store t b) \<longleftrightarrow> t < n"
  by (simp_all add: in_region_def)

lemma fill_in_region: "t + length bs \<le> n \<Longrightarrow> \<forall>ac \<in> set (fill t bs). in_region n ac"
  by (induction t bs rule: fill.induct) auto

subsection \<open>Regions of a running program\<close>

definition region_rel ::
  "'w resolver \<Rightarrow> ('w \<Rightarrow> bool) \<Rightarrow> ('w \<Rightarrow> (ul \<rightharpoonup> page list)) \<Rightarrow> ul \<Rightarrow> ul \<Rightarrow> obo \<Rightarrow> 'w uffdman \<Rightarrow> bool"
where
  "region_rel resolve winv remote uffd start c s \<longleftrightarrow>
     base_rel resolve winv remote uffd start c s \<and> cache_rel uffd start c s"

lemma cache_rel_resident:
  assumes "cache_rel uffd start c s" "i < length (backing c)"
  shows "resident s (region_page start i) =
    (case cached c of None \<Rightarrow> None | Some (j, d, pg) \<Rightarrow> if j = i then Some pg else None)"
  using assms by (auto simp: cache_rel_def no_resident_def split: option.splits)

lemma obo_resident_eq:
  assumes "cache_rel uffd start c s" "i < length (backing c)"
  shows "obo_resident c i \<longleftrightarrow> resident s (region_page start i) \<noteq> None"
  using cache_rel_resident [OF assms] by (auto simp: obo_resident_def split: option.splits)

text \<open>Another region, disjoint from the one the accesses went to, keeps its state but for the scratch page.\<close>

definition apart :: "ul \<Rightarrow> nat \<Rightarrow> ul \<Rightarrow> nat \<Rightarrow> bool" where
  "apart start n start' n' \<longleftrightarrow>
     start \<noteq> start' \<and> (\<forall>i < n. \<forall>j < n'. region_page start i \<noteq> region_page start' j)"

lemma cache_rel_cong:
  assumes "uffd_prev_resolved_addr s' uffd = uffd_prev_resolved_addr s uffd"
    "uffd_prev_resolved_op s' uffd = uffd_prev_resolved_op s uffd"
    "\<forall>i < length (backing c). resident s' (region_page start i) = resident s (region_page start i)"
  shows "cache_rel uffd start c s' = cache_rel uffd start c s"
  using assms by (auto simp: cache_rel_def no_resident_def split: option.split)

lemma region_rel_elsewhere:
  assumes other: "region_rel resolve winv remote uffd' start' c' s"
    and same: "elsewhere_same remote uffd start n s s'"
    and after: "base_rel resolve winv remote uffd start c s'"
    and "uffd \<noteq> uffd'" "apart start n start' (length (backing c'))"
  shows "region_rel resolve winv remote uffd' start' (c'\<lparr>last_page := last_page c\<rparr>) s'"
proof -
  have o: "base_rel resolve winv remote uffd' start' c' s" "cache_rel uffd' start' c' s"
    using other by (simp_all add: region_rel_def)
  have "\<forall>j < length (backing c'). resident s' (region_page start' j) = resident s (region_page start' j)"
    using same assms(5) unfolding elsewhere_same_def apart_def by metis
  then have "cache_rel uffd' start' c' s'"
    using same assms(4) o(2) by (simp add: elsewhere_same_def cache_rel_cong [of s' uffd' s])
  then have "cache_rel uffd' start' (c'\<lparr>last_page := last_page c\<rparr>) s'"
    by (cases "cached c'") (auto simp: cache_rel_def)
  moreover have "remote (world s') start' = remote (world s) start'"
    using same assms(5) unfolding elsewhere_same_def apart_def by metis
  then have "base_rel resolve winv remote uffd' start' (c'\<lparr>last_page := last_page c\<rparr>) s'"
    using o(1) after same by (simp add: base_rel_def elsewhere_same_def)
  ultimately show ?thesis by (simp add: region_rel_def)
qed

lemma obo_view_last_page [simp]:
  "obo_view (c\<lparr>last_page := pg\<rparr>) = obo_view c"
  "obo_coherent (c\<lparr>last_page := pg\<rparr>) = obo_coherent c"
  by (simp_all add: obo_view_def obo_coherent_def fun_eq_iff split: option.split prod.split)

lemma at_region_append [simp]: "at_region start (as @ as') = at_region start as @ at_region start as'"
  by (simp add: at_region_def)

lemma app_run_append:
  "app_run os (as @ as') s =
     ebind (app_run os as s)
       (\<lambda>(bs, s1). ebind (app_run os as' s1) (\<lambda>(bs', s2). Inr (bs @ bs', s2)))"
proof (induction as arbitrary: s)
  case Nil
  then show ?case by (cases "app_run os as' s") auto
next
  case (Cons ac as)
  show ?case
  proof (cases ac)
    case (Load a)
    show ?thesis
    proof (cases "app_load os a s")
      case (Inr r)
      then show ?thesis
        by (cases "app_run os as (snd r)") (auto simp: Load Cons.IH ebind_def split_beta split: sum.splits)
    qed (simp add: Load)
  next
    case (Store a b)
    then show ?thesis by (cases "app_store os a b s") (auto simp: Cons.IH)
  qed
qed

lemma obo_run_length [simp]: "length (backing (snd (obo_run as c))) = length (backing c)"
  by (induction as c rule: obo_run.induct) (simp_all add: split_beta Let_def obo_load_def)

text \<open>
  Two machines that share their last page: an access to one of them (the first for True) hands its
  last page on to the other.
\<close>

fun pair_run :: "(bool \<times> nat access) list \<Rightarrow> obo \<Rightarrow> obo \<Rightarrow> byte list \<times> obo \<times> obo" where
  "pair_run [] c d = ([], c, d)"
| "pair_run ((True, ac) # as) c d =
     (let (bs, c1) = obo_run [ac] c; (bs', r) = pair_run as c1 (d\<lparr>last_page := last_page c1\<rparr>)
      in (bs @ bs', r))"
| "pair_run ((False, ac) # as) c d =
     (let (bs, d1) = obo_run [ac] d; (bs', r) = pair_run as (c\<lparr>last_page := last_page d1\<rparr>) d1
      in (bs @ bs', r))"

definition at_pair :: "ul \<Rightarrow> ul \<Rightarrow> (bool \<times> nat access) list \<Rightarrow> ul access list" where
  "at_pair start start' as = concat (map (\<lambda>(x, ac). at_region (if x then start else start') [ac]) as)"

lemma at_pair_simps [simp]:
  "at_pair start start' [] = []"
  "at_pair start start' ((True, ac) # as) = at_region start [ac] @ at_pair start start' as"
  "at_pair start start' ((False, ac) # as) = at_region start' [ac] @ at_pair start start' as"
  by (simp_all add: at_pair_def)

lemma apart_sym: "apart start n start' n' \<Longrightarrow> apart start' n' start n"
  unfolding apart_def by metis

context page_backing
begin

lemma region_obo_ok:
  assumes "region_rel resolve winv remote uffd start c s"
  shows "obo_ok c"
proof -
  have R: "winv (world s)" "remote (world s) start = Some (backing c)" "length (last_page c) = 4096"
    "cache_rel uffd start c s"
    using assms by (simp_all add: region_rel_def base_rel_def)
  then have "\<forall>pg \<in> set (backing c). length pg = 4096"
    using remote_page_length [OF R(1,2)] by blast
  then show ?thesis using R(3,4) by (auto simp: obo_ok_def cache_rel_def)
qed

lemma touch_step:
  assumes rel: "region_rel resolve winv remote uffd start c s" and os: "uffd_os_ok os"
    and t: "t < length (backing c) * 4096"
  shows "\<exists>s' d pg. app_touch os wr (start + of_nat t) s = Inr (pg, s') \<and>
    cached (obo_touch wr t c) = Some (t div 4096, d, pg) \<and>
    region_rel resolve winv remote uffd start (obo_touch wr t c) s' \<and>
    elsewhere_same remote uffd start (length (backing c)) s s'"
proof -
  let ?i = "t div 4096" and ?p = "region_page start (t div 4096)"
  have R: "base_rel resolve winv remote uffd start c s" "cache_rel uffd start c s"
    "owner s (start + of_nat t) = Some uffd" "region_ok start (length (backing c))"
    using rel t by (simp_all add: region_rel_def base_rel_def)
  have i: "?i < length (backing c)" by (rule page_index [OF t])
  have p: "PGROUNDDOWN (PAGE_SIZE os) (start + of_nat t) = ?p"
    using PGROUNDDOWN_region [OF R(4) t] os by (simp add: uffd_os_ok_def)
  note res = cache_rel_resident [OF R(2) i] obo_resident_eq [OF R(2) i]
  show ?thesis
  proof (cases "obo_resident c ?i")
    case True
    then obtain d pg where pg: "cached c = Some (?i, d, pg)" by (rule obo_residentE)
    then show ?thesis using True rel p res(1) by (simp add: app_touch_def obo_touch_def)
  next
    case False
    obtain s' where s': "handle_pagefault os uffd ?p (if wr then 1 else 0) s = Inr (True, s')"
      "base_rel resolve winv remote uffd start (obo_fault wr ?i c) s'"
      "cache_rel uffd start (obo_fault wr ?i c) s'"
      "elsewhere_same remote uffd start (length (backing c)) s s'"
      using fault_step [OF R(1,2) i os] by blast
    let ?pg = "if wr then last_page c else backing (obo_evict c) ! ?i"
    have res': "resident s' ?p = Some ?pg"
      using cache_rel_resident [OF s'(3), of ?i] i by (simp add: obo_fault_cached)
    have "app_touch os wr (start + of_nat t) s = Inr (?pg, s')"
      using False res(2) p R(3) s'(1) res' by (simp add: app_touch_def Let_def)
    moreover have "region_rel resolve winv remote uffd start (obo_fault wr ?i c) s'"
      using s'(2,3) by (simp add: region_rel_def)
    ultimately show ?thesis using False s'(4) by (simp add: obo_touch_def obo_fault_cached)
  qed
qed

lemma load_step:
  assumes rel: "region_rel resolve winv remote uffd start c s" and os: "uffd_os_ok os"
    and t: "t < length (backing c) * 4096"
  shows "\<exists>s'. app_load os (start + of_nat t) s = Inr (fst (obo_load t c), s') \<and>
    region_rel resolve winv remote uffd start (snd (obo_load t c)) s' \<and>
    elsewhere_same remote uffd start (length (backing c)) s s'"
proof -
  have reg: "region_ok start (length (backing c))" using rel by (simp add: region_rel_def base_rel_def)
  have off: "unat (start + of_nat t - PGROUNDDOWN (PAGE_SIZE os) (start + of_nat t)) = t mod 4096"
    using region_byte_offset [OF reg t] PGROUNDDOWN_region [OF reg t] os
    by (simp add: uffd_os_ok_def)
  obtain s' d pg where "app_touch os False (start + of_nat t) s = Inr (pg, s')"
    "cached (obo_touch False t c) = Some (t div 4096, d, pg)"
    "region_rel resolve winv remote uffd start (obo_touch False t c) s'"
    "elsewhere_same remote uffd start (length (backing c)) s s'"
    using touch_step [OF assms] by blast
  then show ?thesis using off by (simp add: app_load_def obo_load_def obo_view_def)
qed

lemma store_step:
  assumes rel: "region_rel resolve winv remote uffd start c s" and os: "uffd_os_ok os"
    and t: "t < length (backing c) * 4096"
  shows "\<exists>s'. app_store os (start + of_nat t) b s = Inr s' \<and>
    region_rel resolve winv remote uffd start (obo_store t b c) s' \<and>
    elsewhere_same remote uffd start (length (backing c)) s s'"
proof -
  let ?i = "t div 4096" and ?p = "region_page start (t div 4096)"
  have reg: "region_ok start (length (backing c))" using rel by (simp add: region_rel_def base_rel_def)
  have i: "?i < length (backing c)" by (rule page_index [OF t])
  have p: "PGROUNDDOWN (PAGE_SIZE os) (start + of_nat t) = ?p"
    using PGROUNDDOWN_region [OF reg t] os by (simp add: uffd_os_ok_def)
  have off: "unat (start + of_nat t - ?p) = t mod 4096" by (rule region_byte_offset [OF reg t])
  obtain s1 d pg where s1: "app_touch os True (start + of_nat t) s = Inr (pg, s1)"
    "cached (obo_touch True t c) = Some (?i, d, pg)"
    "region_rel resolve winv remote uffd start (obo_touch True t c) s1"
    "elsewhere_same remote uffd start (length (backing c)) s s1"
    using touch_step [OF assms] by blast
  let ?pg = "pg[t mod 4096 := b]" and ?c1 = "obo_touch True t c"
  let ?s = "s1\<lparr>resident := (resident s1)(?p \<mapsto> ?pg)\<rparr>"
  have "app_store os (start + of_nat t) b s = Inr ?s"
    using s1(1) p off by (simp add: app_store_def Let_def)
  moreover have "obo_store t b c = ?c1\<lparr>cached := Some (?i, d, ?pg)\<rparr>"
    using s1(2) by (simp add: obo_store_def)
  moreover have "cache_rel uffd start (?c1\<lparr>cached := Some (?i, d, ?pg)\<rparr>) ?s"
  proof -
    have inj: "\<forall>j < length (backing c). j \<noteq> ?i \<longrightarrow> region_page start j \<noteq> ?p"
      using region_page_inj [OF reg _ i] by blast
    have "cache_rel uffd start ?c1 s1" using s1(3) by (simp add: region_rel_def)
    note this [unfolded cache_rel_Some [OF s1(2)]]
    then show ?thesis using inj by (simp add: cache_rel_Some)
  qed
  then have "region_rel resolve winv remote uffd start (?c1\<lparr>cached := Some (?i, d, ?pg)\<rparr>) ?s"
    using s1(3) by (simp add: region_rel_def base_rel_def)
  moreover have "elsewhere_same remote uffd start (length (backing c)) s1 ?s"
    using i unfolding elsewhere_same_def by simp
  then have "elsewhere_same remote uffd start (length (backing c)) s ?s"
    by (rule elsewhere_same_trans [OF s1(4)])
  ultimately show ?thesis by simp
qed

lemma obo_load_length [simp]: "length (backing (snd (obo_load t c))) = length (backing c)"
  by (simp add: obo_load_def)

theorem run_refines:
  assumes "region_rel resolve winv remote uffd start c s" "uffd_os_ok os"
    "\<forall>ac \<in> set as. in_region (length (backing c) * 4096) ac"
  shows "\<exists>s'. app_run os (at_region start as) s = Inr (fst (obo_run as c), s') \<and>
    region_rel resolve winv remote uffd start (snd (obo_run as c)) s' \<and>
    elsewhere_same remote uffd start (length (backing c)) s s'"
  using assms
proof (induction as c arbitrary: s rule: obo_run.induct)
  case (1 c)
  then show ?case by simp
next
  case (2 t as c)
  have t: "t < length (backing c) * 4096" using "2.prems"(3) by simp
  obtain s1 where s1: "app_load os (start + of_nat t) s = Inr (fst (obo_load t c), s1)"
    "region_rel resolve winv remote uffd start (snd (obo_load t c)) s1"
    "elsewhere_same remote uffd start (length (backing c)) s s1"
    using load_step [OF "2.prems"(1,2) t] by blast
  have "\<forall>ac \<in> set as. in_region (length (backing (snd (obo_load t c))) * 4096) ac"
    using "2.prems"(3) by simp
  from "2.IH" [OF refl prod.collapse s1(2) "2.prems"(2) this]
  obtain s2 where s2: "app_run os (at_region start as) s1 = Inr (fst (obo_run as (snd (obo_load t c))), s2)"
    "region_rel resolve winv remote uffd start (snd (obo_run as (snd (obo_load t c)))) s2"
    "elsewhere_same remote uffd start (length (backing c)) s1 s2"
    by auto
  then show ?case using s1 elsewhere_same_trans [OF s1(3) s2(3)]
    by (simp add: split_beta Let_def)
next
  case (3 t b as c)
  have t: "t < length (backing c) * 4096" using "3.prems"(3) by simp
  obtain s1 where s1: "app_store os (start + of_nat t) b s = Inr s1"
    "region_rel resolve winv remote uffd start (obo_store t b c) s1"
    "elsewhere_same remote uffd start (length (backing c)) s s1"
    using store_step [OF "3.prems"(1,2) t] by blast
  have "\<forall>ac \<in> set as. in_region (length (backing (obo_store t b c)) * 4096) ac"
    using "3.prems"(3) by simp
  from "3.IH" [OF s1(2) "3.prems"(2) this]
  obtain s2 where s2: "app_run os (at_region start as) s1 = Inr (fst (obo_run as (obo_store t b c)), s2)"
    "region_rel resolve winv remote uffd start (snd (obo_run as (obo_store t b c))) s2"
    "elsewhere_same remote uffd start (length (backing c)) s1 s2"
    by auto
  then show ?case using s1 elsewhere_same_trans [OF s1(3) s2(3)] by simp
qed

subsection \<open>What an application can rely on\<close>

lemma fill_read:
  assumes rel: "region_rel resolve winv remote uffd start c s" and os: "uffd_os_ok os"
    and "cached c = None" "length bs = length (backing c) * 4096" "\<forall>t \<in> set ts. t < length bs"
  shows "\<exists>s'. app_run os (at_region start (fill 0 bs @ map Load ts)) s = Inr (map (\<lambda>t. bs ! t) ts, s')"
proof -
  have "\<forall>ac \<in> set (fill 0 bs @ map Load ts). in_region (length (backing c) * 4096) ac"
    using assms(4,5) fill_in_region [of 0 bs "length (backing c) * 4096"] by auto
  then show ?thesis
    using run_refines [OF rel os] obo_fill_read [OF region_obo_ok [OF rel] assms(3-5)]
    by metis
qed

lemma fill_prefix:
  assumes rel: "region_rel resolve winv remote uffd start c s" and os: "uffd_os_ok os"
    and "cached c = None" "bs \<noteq> []" "length bs \<le> length (backing c) * 4096"
  shows "\<exists>s1 c1. app_run os (at_region start (fill 0 bs)) s = Inr ([], s1) \<and>
    region_rel resolve winv remote uffd start c1 s1 \<and> obo_coherent c1 \<and>
    length (backing c1) = length (backing c) \<and> (\<forall>i < length bs. obo_view c1 i = bs ! i) \<and>
    elsewhere_same remote uffd start (length (backing c)) s s1"
proof -
  have "obo_coherent c" "\<not> obo_resident c (0 div 4096)"
    using assms(3) by (simp_all add: obo_coherent_def obo_resident_def)
  then obtain c1 where c1: "obo_run (fill 0 bs) c = ([], c1)" "obo_ok c1" "obo_coherent c1"
    "length (backing c1) = length (backing c)" "\<forall>i < length bs. obo_view c1 i = bs ! i"
    using obo_fill [OF region_obo_ok [OF rel], of 0 bs] assms(4,5) by auto
  have "\<forall>ac \<in> set (fill 0 bs). in_region (length (backing c) * 4096) ac"
    using fill_in_region [of 0 bs "length (backing c) * 4096"] assms(5) by simp
  from run_refines [OF rel os this] c1 show ?thesis by auto
qed

lemma loads_step:
  assumes rel: "region_rel resolve winv remote uffd start c s" and os: "uffd_os_ok os"
    and "obo_coherent c" "\<forall>t \<in> set ts. t < length (backing c) * 4096"
  shows "\<exists>s1 c1. app_run os (at_region start (map Load ts)) s = Inr (map (obo_view c) ts, s1) \<and>
    region_rel resolve winv remote uffd start c1 s1 \<and> obo_coherent c1 \<and>
    length (backing c1) = length (backing c) \<and> (\<forall>u. obo_view c1 u = obo_view c u) \<and>
    elsewhere_same remote uffd start (length (backing c)) s s1"
proof -
  note ok = region_obo_ok [OF rel]
  have "\<forall>ac \<in> set (map Load ts). in_region (length (backing c) * 4096) ac" using assms(4) by auto
  from run_refines [OF rel os this]
  obtain s1 where "app_run os (at_region start (map Load ts)) s = Inr (fst (obo_run (map Load ts) c), s1)"
    "region_rel resolve winv remote uffd start (snd (obo_run (map Load ts) c)) s1"
    "elsewhere_same remote uffd start (length (backing c)) s s1" by blast
  then show ?thesis
    using obo_loads [OF ok assms(3,4)] obo_loads_keep [OF ok assms(3,4)]
    by (intro exI [of _ s1] exI [of _ "snd (obo_run (map Load ts) c)"]) simp
qed

lemma loads_view:
  assumes rel: "region_rel resolve winv remote uffd start c s" and os: "uffd_os_ok os"
    and "obo_coherent c" "\<forall>t \<in> set ts. t < length (backing c) * 4096"
  shows "\<exists>s'. app_run os (at_region start (map Load ts)) s = Inr (map (obo_view c) ts, s')"
  using loads_step [OF assms] by blast

lemma pair_step:
  assumes rel: "region_rel resolve winv remote uffd start c s" and os: "uffd_os_ok os"
    and other: "region_rel resolve winv remote uffd' start' d s"
    and ne: "uffd \<noteq> uffd'" "apart start (length (backing c)) start' (length (backing d))"
    and as: "\<forall>ac \<in> set as. in_region (length (backing c) * 4096) ac"
  shows "\<exists>s1. app_run os (at_region start as) s = Inr (fst (obo_run as c), s1) \<and>
    region_rel resolve winv remote uffd start (snd (obo_run as c)) s1 \<and>
    region_rel resolve winv remote uffd' start' (d\<lparr>last_page := last_page (snd (obo_run as c))\<rparr>) s1"
proof -
  obtain s1 where s1: "app_run os (at_region start as) s = Inr (fst (obo_run as c), s1)"
    "region_rel resolve winv remote uffd start (snd (obo_run as c)) s1"
    "elsewhere_same remote uffd start (length (backing c)) s s1"
    using run_refines [OF rel os as] by blast
  have "base_rel resolve winv remote uffd start (snd (obo_run as c)) s1"
    using s1(2) by (simp add: region_rel_def)
  from region_rel_elsewhere [OF other s1(3) this ne] s1(1,2) show ?thesis by blast
qed

lemma regions_independent:
  assumes rel: "region_rel resolve winv remote uffd start c s" and os: "uffd_os_ok os"
    and other: "region_rel resolve winv remote uffd' start' c' s" "obo_coherent c'"
    and "uffd \<noteq> uffd'" "apart start (length (backing c)) start' (length (backing c'))"
    and as: "\<forall>ac \<in> set as. in_region (length (backing c) * 4096) ac"
    and ts: "\<forall>t \<in> set ts. t < length (backing c') * 4096"
  shows "\<exists>s'. app_run os (at_region start as @ at_region start' (map Load ts)) s =
    Inr (fst (obo_run as c) @ map (obo_view c') ts, s')"
proof -
  obtain s1 where s1: "app_run os (at_region start as) s = Inr (fst (obo_run as c), s1)"
    "region_rel resolve winv remote uffd' start' (c'\<lparr>last_page := last_page (snd (obo_run as c))\<rparr>) s1"
    using pair_step [OF rel os other(1) assms(5-7)] by blast
  have "\<exists>s2. app_run os (at_region start' (map Load ts)) s1 = Inr (map (obo_view c') ts, s2)"
    using loads_view [OF s1(2) os] other(2) ts by simp
  then show ?thesis using s1(1) by (auto simp: app_run_append)
qed

lemma pair_refines:
  assumes "region_rel resolve winv remote uffd start c s" "uffd_os_ok os"
    "region_rel resolve winv remote uffd' start' d s" "uffd \<noteq> uffd'"
    "apart start (length (backing c)) start' (length (backing d))"
    "\<forall>(x, ac) \<in> set as. in_region (length (backing (if x then c else d)) * 4096) ac"
  shows "\<exists>s'. app_run os (at_pair start start' as) s = Inr (fst (pair_run as c d), s') \<and>
    region_rel resolve winv remote uffd start (fst (snd (pair_run as c d))) s' \<and>
    region_rel resolve winv remote uffd' start' (snd (snd (pair_run as c d))) s'"
  using assms
proof (induction as c d arbitrary: s rule: pair_run.induct)
  case (1 c d)
  then show ?case by auto
next
  case (2 ac as c d)
  have "\<forall>a \<in> set [ac]. in_region (length (backing c) * 4096) a" using "2.prems"(6) by simp
  from pair_step [OF "2.prems"(1-5) this]
  obtain s1 where s1: "app_run os (at_region start [ac]) s = Inr (fst (obo_run [ac] c), s1)"
    "region_rel resolve winv remote uffd start (snd (obo_run [ac] c)) s1"
    "region_rel resolve winv remote uffd' start' (d\<lparr>last_page := last_page (snd (obo_run [ac] c))\<rparr>) s1"
    by blast
  show ?case
    using "2.IH" [OF refl prod.collapse s1(2) "2.prems"(2) s1(3) "2.prems"(4)] "2.prems"(5,6) s1(1)
    by (force simp: app_run_append split_beta Let_def)
next
  case (3 ac as c d)
  have "\<forall>a \<in> set [ac]. in_region (length (backing d) * 4096) a" using "3.prems"(6) by simp
  from pair_step [OF "3.prems"(3,2,1) not_sym [OF "3.prems"(4)] apart_sym [OF "3.prems"(5)] this]
  obtain s1 where s1: "app_run os (at_region start' [ac]) s = Inr (fst (obo_run [ac] d), s1)"
    "region_rel resolve winv remote uffd' start' (snd (obo_run [ac] d)) s1"
    "region_rel resolve winv remote uffd start (c\<lparr>last_page := last_page (snd (obo_run [ac] d))\<rparr>) s1"
    by blast
  show ?case
    using "3.IH" [OF refl prod.collapse s1(3) "3.prems"(2) s1(2) "3.prems"(4)] "3.prems"(5,6) s1(1)
    by (force simp: app_run_append split_beta Let_def)
qed

lemma lost_update:
  assumes rel: "region_rel resolve winv remote uffd start c s" and os: "uffd_os_ok os"
    and "obo_coherent c" "\<not> obo_dirty c (t div 4096)"
    and t: "t < length (backing c) * 4096" "u < length (backing c) * 4096" "u div 4096 \<noteq> t div 4096"
  shows "\<exists>s'. app_run os (at_region start [Load t, Store t b, Load t, Load u, Load t]) s =
    Inr ([obo_view c t, b, obo_view c u, obo_view c t], s')"
proof -
  let ?as = "[Load t, Store t b, Load t, Load u, Load t]"
  have "\<forall>ac \<in> set ?as. in_region (length (backing c) * 4096) ac" using t by simp
  then show ?thesis
    using run_refines [OF rel os] obo_lost_update [OF region_obo_ok [OF rel] assms(3-7)] by metis
qed

lemma scratch_leak:
  assumes rel: "region_rel resolve winv remote uffd start c s" and os: "uffd_os_ok os"
    and other: "region_rel resolve winv remote uffd' start' d s" "obo_coherent c" "obo_coherent d"
    and "uffd \<noteq> uffd'" "apart start (length (backing c)) start' (length (backing d))"
    and u: "u < length (backing c) * 4096" "\<not> obo_resident c (u div 4096)"
    and t: "t < length (backing d) * 4096" "v < length (backing d) * 4096" "v \<noteq> t"
      "v div 4096 = t div 4096" "\<not> obo_resident d (t div 4096)"
  shows "\<exists>s'. app_run os (at_pair start start' [(True, Load u), (False, Store t b), (False, Load v)]) s =
    Inr ([obo_view c u, obo_view c (u div 4096 * 4096 + v mod 4096)], s')"
proof -
  let ?as = "[(True, Load u), (False, Store t b), (False, Load v)]"
  let ?pg = "last_page (snd (obo_load u c))"
  let ?d = "d\<lparr>last_page := ?pg\<rparr>"
  have ok: "obo_ok c" "obo_ok d" using region_obo_ok rel other(1) by blast+
  have "fst (pair_run ?as c d) = [obo_view c u, obo_view c (u div 4096 * 4096 + v mod 4096)]"
  proof -
    have "obo_ok ?d"
      using ok obo_load_spec(2) [OF ok(1) other(2) u(1)] by (simp add: obo_ok_def)
    moreover have "obo_coherent ?d" "\<not> obo_resident ?d (t div 4096)"
      using other(3) t(5) by (simp_all add: obo_resident_def)
    ultimately have "fst (obo_load v (obo_store t b ?d)) = ?pg ! (v mod 4096)"
      using obo_store_load [of ?d t v b] t by simp
    then show ?thesis
      using obo_load_spec(1) [OF ok(1) other(2) u(1)] obo_load_last [OF ok(1) other(2) u(2), of v]
      by (simp add: split_beta Let_def)
  qed
  then show ?thesis
    using pair_refines [OF rel os other(1) assms(6,7), of ?as] u t by auto
qed

lemma stale_page:
  assumes rel: "region_rel resolve winv remote uffd start c s" and os: "uffd_os_ok os"
    and "obo_coherent c" and t: "t < length (backing c) * 4096"
    "u < length (backing c) * 4096" "v < length (backing c) * 4096" "v \<noteq> t"
    "u div 4096 \<noteq> t div 4096" "v div 4096 = t div 4096" "\<not> obo_resident c (u div 4096)"
  shows "\<exists>s'. app_run os (at_region start [Load u, Store t b, Load v]) s =
    Inr ([obo_view c u, obo_view c (u div 4096 * 4096 + v mod 4096)], s')"
proof -
  have "\<forall>ac \<in> set [Load u, Store t b, Load v]. in_region (length (backing c) * 4096) ac"
    using t by simp
  then show ?thesis
    using run_refines [OF rel os] obo_stale [OF region_obo_ok [OF rel] assms(3-10)] by metis
qed

end

end
