(* ===== verification/Remote_Client.thy ===== *)
theory Remote_Client
  imports RMP_Client Remote_Memory Page_Pool
begin

text \<open>
  The client library over a live page server: \<open>live_exchange\<close> is the connection to a server
  process that handles each packet it receives and answers it, and stays silent once it has
  died. Over the contract \<^verbatim>\<open>page_pool\<close> the theory proves that the client's page resolver is a
  page resolver in the sense of \<^verbatim>\<open>page_backing\<close>: the backing pages of a region are the pages the
  server keeps under the handle of the region.
\<close>

definition live_exchange ::
  "(packet \<Rightarrow> 's \<Rightarrow> (packet \<times> 's) outcome) \<Rightarrow> packet \<Rightarrow> 's option \<Rightarrow> packet option \<times> 's option" where
  "live_exchange rpc p n =
     (case n of
        None \<Rightarrow> (None, None)
      | Some s \<Rightarrow>
          (case rpc p s of
             Inl _ \<Rightarrow> (None, None)
           | Inr (p', s') \<Rightarrow> (Some p', Some s')))"

definition env_ok :: "(packet \<Rightarrow> 's \<Rightarrow> (packet \<times> 's) outcome) \<Rightarrow> 's option client_env \<Rightarrow> bool" where
  "env_ok rpc e \<longleftrightarrow>
     uffd_os_ok (os e) \<and> packet_ok (garbage_send e) \<and> exchange e = live_exchange rpc"

definition client_remote :: "('s \<Rightarrow> pool) \<Rightarrow> 's option client \<Rightarrow> ul \<rightharpoonup> page list" where
  "client_remote view c start =
     (case (net c, addr_hndl_map c) of
        (Some s, Some hm) \<Rightarrow> (case hm start of None \<Rightarrow> None | Some h \<Rightarrow> view s h)
      | _ \<Rightarrow> None)"

text \<open>
  The invariant of a connected client: the server is alive and keeps its own invariant, no
  region of the server has more pages than a 32-bit offset can name, and the regions of the
  client have distinct handles the server knows.
\<close>

definition client_inv ::
  "(packet \<Rightarrow> 's \<Rightarrow> (packet \<times> 's) outcome) \<Rightarrow> ('s \<Rightarrow> bool) \<Rightarrow> ('s \<Rightarrow> pool) \<Rightarrow>
     's option client_env \<Rightarrow> 's option client \<Rightarrow> bool" where
  "client_inv rpc sinv view e c \<longleftrightarrow>
     env_ok rpc e \<and> connected c \<and>
     (\<exists>s hm. net c = Some s \<and> addr_hndl_map c = Some hm \<and> sinv s \<and> inj_on hm (dom hm) \<and>
        (\<forall>a h. hm a = Some h \<longrightarrow> view s h \<noteq> None) \<and>
        (\<forall>h pages. view s h = Some pages \<longrightarrow> length pages < 2 ^ 32))"

subsection \<open>Page offsets\<close>

lemma page_offset:
  assumes "region_ok start n" "i < n" "n < 2 ^ 32"
  shows "((region_page start i AND NOT (4096 - 1)) - start) div 4096 = of_nat i"
    "unat (ucast (of_nat i :: ul) :: u32) = i"
proof -
  have rd: "region_page start i AND NOT (4096 - 1) = region_page start i"
    using PGROUNDDOWN_region_page [OF assms(1,2)] by (simp add: PGROUNDDOWN_def)
  have i: "i < 2 ^ 32" using assms(2,3) by simp
  have "i * 4096 < 2 ^ 64" using i by simp
  then have "unat ((of_nat (i * 4096) :: ul) div 4096) = i * 4096 div 4096"
    by (simp only: unat_div_distrib unat_of_nat_ul) simp
  moreover have "unat (of_nat i :: ul) = i" by (rule unat_of_nat_ul) (use i in simp)
  ultimately have "(of_nat (i * 4096) :: ul) div 4096 = of_nat i"
    by (simp add: word_unat_eq_iff)
  then show "((region_page start i AND NOT (4096 - 1)) - start) div 4096 = of_nat i"
    unfolding rd by (simp add: region_page_def)
  show "unat (ucast (of_nat i :: ul) :: u32) = i"
    using i \<open>unat (of_nat i :: ul) = i\<close> by (simp add: unsigned_ucast_eq take_bit_nat_eq_self)
qed

subsection \<open>The resolver\<close>

locale pool_client = page_pool rpc inv view room
  for rpc :: "packet \<Rightarrow> 's \<Rightarrow> (packet \<times> 's) outcome"
    and inv :: "'s \<Rightarrow> bool" and view :: "'s \<Rightarrow> pool" and room :: "'s \<Rightarrow> nat"
begin

lemma client_inv_env: "client_inv rpc inv view e c \<Longrightarrow> env_ok rpc e \<and> connected c \<and> page_size e = 4096"
  by (simp add: client_inv_def env_ok_def page_size_def uffd_os_ok_def)

lemma client_read_page:
  assumes c: "client_inv rpc inv view e c" "net c = Some s" and v: "view s h = Some pages"
    and i: "unat (ucast off :: u32) < length pages" and b: "length b = 4096"
  shows "\<exists>s'. rmp_read_page e h off (Buf b) c =
      Inr (Buf (pages ! unat (ucast off :: u32)), c\<lparr>net := Some s'\<rparr>) \<and>
    view s' = view s \<and> client_inv rpc inv view e (c\<lparr>net := Some s'\<rparr>)"
proof -
  have e: "env_ok rpc e" "connected c" "page_size e = 4096" using client_inv_env [OF c(1)] by simp_all
  have s: "inv s" using c by (auto simp: client_inv_def)
  let ?p = "read_request e h off"
  have p: "request_ok ?p" "action ?p = 1" "hndl ?p = h" "offset ?p = ucast off"
    using e by (simp_all add: read_request_def request_ok_def packet_ok_def env_ok_def)
  have v': "view s (hndl ?p) = Some pages" "unat (offset ?p) < length pages" using v p i by simp_all
  obtain s' where s': "rpc ?p s = Inr (?p\<lparr>data := pages ! unat (offset ?p)\<rparr>, s')" "inv s'"
    "view s' = view s"
    by (rule read_page [OF s p(1,2) v'])
  have len: "length (pages ! unat (ucast off :: u32)) = 4096" using view_page [OF s v] i by simp
  have "rmp_read_page e h off (Buf b) c =
      Inr (Buf (pages ! unat (ucast off :: u32)), c\<lparr>net := Some s'\<rparr>)"
    using e c(2) s'(1) p(4) len b
    by (simp add: rmp_read_page_def transact_def env_ok_def live_exchange_def copy_in_def)
  moreover have "client_inv rpc inv view e (c\<lparr>net := Some s'\<rparr>)"
    using c s'(2,3) by (auto simp: client_inv_def)
  ultimately show ?thesis using s'(3) by blast
qed

lemma client_write_page:
  assumes c: "client_inv rpc inv view e c" "net c = Some s" and v: "view s h = Some pages"
    and i: "unat (ucast off :: u32) < length pages" and b: "length b = 4096"
  shows "\<exists>s'. rmp_write_page e h off (Buf b) c = Inr (Buf b, c\<lparr>net := Some s'\<rparr>) \<and>
    view s' = (view s)(h \<mapsto> pages[unat (ucast off :: u32) := b]) \<and>
    client_inv rpc inv view e (c\<lparr>net := Some s'\<rparr>)"
proof -
  have e: "env_ok rpc e" "connected c" "page_size e = 4096" using client_inv_env [OF c(1)] by simp_all
  obtain hm where hm: "addr_hndl_map c = Some hm" "inv s" "inj_on hm (dom hm)"
    "\<forall>a h. hm a = Some h \<longrightarrow> view s h \<noteq> None"
    "\<forall>h pages. view s h = Some pages \<longrightarrow> length pages < 2 ^ 32"
    using c by (auto simp: client_inv_def)
  let ?p = "write_request e h off b"
  have p: "request_ok ?p" "action ?p = 2" "hndl ?p = h" "offset ?p = ucast off" "data ?p = b"
    using e b by (simp_all add: write_request_def request_ok_def packet_ok_def env_ok_def)
  have v': "view s (hndl ?p) = Some pages" "unat (offset ?p) < length pages" using v p i by simp_all
  obtain s' where s': "rpc ?p s = Inr (?p, s')" "inv s'"
    "view s' = (view s)(hndl ?p \<mapsto> pages[unat (offset ?p) := data ?p])"
    by (rule write_page [OF hm(2) p(1,2) v'])
  have vs: "view s' = (view s)(h \<mapsto> pages[unat (ucast off :: u32) := b])" using s'(3) p by simp
  have "length (data (garbage_send e)) = 4096" using e(1) by (simp add: env_ok_def packet_ok_def)
  then have "rmp_write_page e h off (Buf b) c = Inr (Buf b, c\<lparr>net := Some s'\<rparr>)"
    using e c(2) s'(1) b
    by (simp add: rmp_write_page_def transact_def env_ok_def live_exchange_def copy_out_def)
  moreover have "client_inv rpc inv view e (c\<lparr>net := Some s'\<rparr>)"
    using hm e(1,2) v s'(2) vs by (auto simp: client_inv_def)
  ultimately show ?thesis using vs by blast
qed

lemma resolver_unfold:
  assumes c: "client_inv rpc inv view e c" and r: "client_remote view c start = Some pages"
    and reg: "region_ok start (length pages)" and i: "i < length pages"
  obtains s hm h where "net c = Some s" "addr_hndl_map c = Some hm" "hm start = Some h"
    "view s h = Some pages" "unat (ucast (of_nat i :: ul) :: u32) = i" "inj_on hm (dom hm)"
    "\<And>op b. rmp_pagefault_resovler e start (region_page start i) op b c =
       (if op \<noteq> 0 then rmp_write_page e h (of_nat i) b c else rmp_read_page e h (of_nat i) b c)"
proof -
  from c obtain s hm where s: "net c = Some s" "addr_hndl_map c = Some hm" "inj_on hm (dom hm)"
    "\<forall>h pages. view s h = Some pages \<longrightarrow> length pages < 2 ^ 32"
    by (auto simp: client_inv_def)
  with r obtain h where h: "hm start = Some h" "view s h = Some pages"
    by (auto simp: client_remote_def split: option.splits)
  then have n: "length pages < 2 ^ 32" using s(4) by blast
  have pg: "page_size e = 4096" using client_inv_env [OF c] by simp
  have "rmp_pagefault_resovler e start (region_page start i) op b c =
       (if op \<noteq> 0 then rmp_write_page e h (of_nat i) b c else rmp_read_page e h (of_nat i) b c)"
    for op b
    unfolding rmp_pagefault_resovler_def pg Let_def page_offset(1) [OF reg i n] s(2)
    by (simp add: h(1))
  then show ?thesis using that s h page_offset(2) [OF reg i n] by blast
qed

lemma resolver_read:
  assumes c: "client_inv rpc inv view e c" and r: "client_remote view c start = Some pages"
    and reg: "region_ok start (length pages)" and i: "i < length pages" and b: "length b = 4096"
  shows "\<exists>c'. rmp_pagefault_resovler e start (region_page start i) 0 (Buf b) c =
      Inr (Buf (pages ! i), c') \<and> client_inv rpc inv view e c' \<and>
    client_remote view c' = client_remote view c"
proof -
  obtain s hm h where s: "net c = Some s" "addr_hndl_map c = Some hm" "hm start = Some h"
    "view s h = Some pages" "unat (ucast (of_nat i :: ul) :: u32) = i"
    and f: "rmp_pagefault_resovler e start (region_page start i) 0 (Buf b) c =
        rmp_read_page e h (of_nat i) (Buf b) c"
    using resolver_unfold [OF c r reg i] by (metis (no_types, lifting))
  have "unat (ucast (of_nat i :: ul) :: u32) < length pages" using s(5) i by simp
  from client_read_page [OF c s(1,4) this b]
  obtain s' where s': "rmp_read_page e h (of_nat i) (Buf b) c = Inr (Buf (pages ! i), c\<lparr>net := Some s'\<rparr>)"
    "view s' = view s" "client_inv rpc inv view e (c\<lparr>net := Some s'\<rparr>)"
    using s(5) by auto
  have "client_remote view (c\<lparr>net := Some s'\<rparr>) = client_remote view c"
    using s(1,2) s'(2) by (intro ext) (simp add: client_remote_def split: option.split)
  then show ?thesis using f s'(1,3) by auto
qed

lemma resolver_write:
  assumes c: "client_inv rpc inv view e c" and r: "client_remote view c start = Some pages"
    and reg: "region_ok start (length pages)" and i: "i < length pages" and b: "length b = 4096"
  shows "\<exists>c'. rmp_pagefault_resovler e start (region_page start i) 1 (Buf b) c = Inr (Buf b, c') \<and>
    client_inv rpc inv view e c' \<and>
    client_remote view c' = (client_remote view c)(start \<mapsto> pages[i := b])"
proof -
  obtain s hm h where s: "net c = Some s" "addr_hndl_map c = Some hm" "hm start = Some h"
    "view s h = Some pages" "unat (ucast (of_nat i :: ul) :: u32) = i" "inj_on hm (dom hm)"
    and f: "rmp_pagefault_resovler e start (region_page start i) 1 (Buf b) c =
        rmp_write_page e h (of_nat i) (Buf b) c"
    using resolver_unfold [OF c r reg i] by (metis (no_types, lifting) zero_neq_one)
  have "unat (ucast (of_nat i :: ul) :: u32) < length pages" using s(5) i by simp
  from client_write_page [OF c s(1,4) this b]
  obtain s' where s': "rmp_write_page e h (of_nat i) (Buf b) c = Inr (Buf b, c\<lparr>net := Some s'\<rparr>)"
    "view s' = (view s)(h \<mapsto> pages[i := b])" "client_inv rpc inv view e (c\<lparr>net := Some s'\<rparr>)"
    using s(5) by auto
  have "client_remote view (c\<lparr>net := Some s'\<rparr>) st =
      ((client_remote view c)(start \<mapsto> pages[i := b])) st" for st
  proof -
    have "hm st \<noteq> Some h" if "st \<noteq> start" using that s(3,6) by (auto simp: inj_on_def dom_def)
    then show ?thesis using s s'(2) by (auto simp: client_remote_def split: option.split)
  qed
  then show ?thesis using f s'(1,3) by auto
qed

end

sublocale pool_client \<subseteq> pb: page_backing
  "rmp_pagefault_resovler e" "client_inv rpc inv view e" "client_remote view" for e
proof unfold_locales
  show "length pg = 4096"
    if "client_inv rpc inv view e w" "client_remote view w start = Some pages" "pg \<in> set pages"
    for w start pages pg
    using that view_page by (auto simp: client_inv_def client_remote_def split: option.splits)
qed (use resolver_read resolver_write in blast)+

end
