(* ===== verification/Remote_Alloc.thy ===== *)
theory Remote_Alloc
  imports Remote_Client
begin

text \<open>
  How a region of remote memory comes into being: \<^verbatim>\<open>rmp_init\<close> on a process whose globals have
  their initial values, \<^verbatim>\<open>rmp_alloc\<close>, and the start of the handler thread of the region. The
  result of the three is a region in the sense of \<^verbatim>\<open>Remote_Memory\<close> whose pages are all zero.
\<close>

subsection \<open>Start of the process\<close>

definition client_start :: "rmp_config \<Rightarrow> 'n \<Rightarrow> 'n client_proc" where
  "client_start cfg n =
     \<lparr>uffd_initialized = False, map_pointers = Unallocated, addr_tid_map = Map.empty,
      start_addr_uffd_map = Map.empty, uffd_start_addr_map = Map.empty,
      uffd_prev_resolved_addr = Map.empty, uffd_prev_resolved_op = Map.empty,
      page_resolver = None, scratch_page = No_page, fault_cnt = 0, ranges = [],
      resident = Map.empty, cancelled = [],
      world = \<lparr>server_config = cfg, socketfd = - 1, connected = False, addr_hndl_map = None,
               addr_npages_map = None, net = n\<rparr>\<rparr>"

text \<open>A client that is ready to allocate: what \<^verbatim>\<open>rmp_init\<close> establishes and \<^verbatim>\<open>rmp_alloc\<close> keeps.\<close>

definition client_ready ::
  "(packet \<Rightarrow> 's \<Rightarrow> (packet \<times> 's) outcome) \<Rightarrow> ('s \<Rightarrow> bool) \<Rightarrow> ('s \<Rightarrow> pool) \<Rightarrow>
     's option client_env \<Rightarrow> 's option client_proc \<Rightarrow> bool" where
  "client_ready rpc sinv view e s \<longleftrightarrow>
     map_pointers s = Allocated \<and> page_resolver s = Some (rmp_pagefault_resovler e) \<and>
     client_inv rpc sinv view e (world s) \<and> addr_npages_map (world s) \<noteq> None \<and>
     (case scratch_page s of No_page \<Rightarrow> scratch_ok (os e) | Page_failed \<Rightarrow> False
      | Page pg \<Rightarrow> length pg = 4096)"

text \<open>
  What the operating system promises of the calls \<^verbatim>\<open>rmp_alloc\<close> makes: the mapping is page
  aligned, does not wrap around and is new (nothing is registered or resident there, the client
  has no region there), the descriptor is new, and no call fails.
\<close>

definition alloc_calls_ok :: "ul \<Rightarrow> reg_calls \<Rightarrow> nat \<Rightarrow> 'n client_proc \<Rightarrow> bool" where
  "alloc_calls_ok a calls n s \<longleftrightarrow>
     region_ok a n \<and> no_resident a n s \<and>
     (\<forall>hm. addr_hndl_map (world s) = Some hm \<longrightarrow> hm a = None) \<and>
     userfaultfd_rc calls \<noteq> - 1 \<and> api_rc calls \<noteq> - 1 \<and> register_rc calls \<noteq> - 1 \<and>
     thread_rc calls = 0 \<and> uffd_start_addr_map s (userfaultfd_rc calls) = None \<and>
     uffd_prev_resolved_addr s (userfaultfd_rc calls) = None"

text \<open>No byte of the \<open>n'\<close> pages at \<open>start'\<close> is in the \<open>n\<close> pages at \<open>a\<close>.\<close>

definition outside :: "ul \<Rightarrow> nat \<Rightarrow> ul \<Rightarrow> nat \<Rightarrow> bool" where
  "outside start' n' a n \<longleftrightarrow>
     (\<forall>t < n' * 4096. \<not> (unat a \<le> unat (start' + of_nat t) \<and>
        unat (start' + of_nat t) < unat a + n * 4096))"

lemma outside_below:
  assumes "region_ok start' n'" "unat start' + n' * 4096 \<le> unat a"
  shows "outside start' n' a n"
  using assms unat_region [OF region_okD(1) [OF assms(1)]] by (auto simp: outside_def)

lemma owner_outside:
  assumes "outside start' n' a n" "unat len = n * 4096" "t < n' * 4096"
    "ranges s' = (u, a, len) # ranges s"
  shows "owner s' (start' + of_nat t) = owner s (start' + of_nat t)"
  using assms by (auto simp: range_owner_def outside_def)

lemma owner_registered:
  assumes "ranges s = (uffd, a, len) # rs" "region_ok a n" "unat len = n * 4096" "t < n * 4096"
  shows "owner s (a + of_nat t) = Some uffd"
  using assms(1,3,4) unat_region [OF region_okD(1) [OF assms(2,4)]]
  by (simp add: range_owner_def)

lemma unat_page_bytes: "unat (ucast (n :: u32) * 4096 :: ul) = unat n * 4096"
proof -
  have "unat (ucast n :: ul) * unat (4096 :: ul) < 2 ^ 64"
    using unat_pages_lt [of n] by (simp only: unat_ucast_u32_ul) simp
  then show ?thesis by (simp add: unat_word_ariths)
qed

text \<open>The state after an allocation, \<open>h\<close> being the handle the server answered.\<close>

definition after_alloc ::
  "ul \<Rightarrow> reg_calls \<Rightarrow> u32 \<Rightarrow> handle \<Rightarrow> 'n \<Rightarrow> page \<Rightarrow> 'n client_proc \<Rightarrow> 'n client_proc" where
  "after_alloc a calls n h net' pg s =
     s\<lparr>ranges := (userfaultfd_rc calls, a, ucast n * 4096) # ranges s,
       addr_tid_map := map_insert a (thrd_id calls) (addr_tid_map s),
       start_addr_uffd_map := map_insert a (userfaultfd_rc calls) (start_addr_uffd_map s),
       uffd_start_addr_map := (uffd_start_addr_map s)(userfaultfd_rc calls \<mapsto> a),
       scratch_page := Page pg,
       world := (world s)\<lparr>net := net',
         addr_hndl_map := map_option (\<lambda>hm. hm(a \<mapsto> h)) (addr_hndl_map (world s)),
         addr_npages_map := map_option (map_insert a (ucast n)) (addr_npages_map (world s))\<rparr>\<rparr>"

context pool_client
begin

lemma init_ready:
  assumes "inv srv" "env_ok rpc e" "scratch_ok (os e)" "0 \<le> fd" "0 \<le> rc"
    "\<forall>h pages. view srv h = Some pages \<longrightarrow> length pages < 2 ^ 32"
  shows "\<exists>s. rmp_init e fd rc (client_start cfg (Some srv)) = (0, s) \<and> client_ready rpc inv view e s \<and>
    net (world s) = Some srv \<and> ranges s = [] \<and> resident s = Map.empty \<and>
    addr_hndl_map (world s) = Some Map.empty \<and> uffd_start_addr_map s = Map.empty \<and>
    uffd_prev_resolved_addr s = Map.empty \<and> start_addr_uffd_map s = Map.empty"
  using assms
  by (simp add: rmp_init_def client_start_def uffdman_init_def client_ready_def client_inv_def
      uffdman_register_page_resolver_def Let_def)

lemma alloc_answer:
  assumes "inv srv" "env_ok rpc e" "unat n * 4096 < 2 ^ 32" "0 < room srv"
    and ans: "rpc (alloc_request e n) srv = Inr (p', srv')" "error p' \<noteq> ALLOC_FAILED"
  shows "inv srv'" "view srv (hndl p') = None"
    "view srv' = (view srv)(hndl p' \<mapsto> replicate (unat n) zero_page)" "room srv \<le> Suc (room srv')"
proof -
  let ?p = "alloc_request e n"
  have p: "request_ok ?p" "action ?p = 0" "npages ?p = n"
    using assms(2,3)
    by (simp_all add: alloc_request_def request_ok_def packet_ok_def env_ok_def page_size_def
        uffd_os_ok_def)
  show "inv srv'" "view srv (hndl p') = None"
    "view srv' = (view srv)(hndl p' \<mapsto> replicate (unat n) zero_page)" "room srv \<le> Suc (room srv')"
    by (cases rule: alloc_pages [OF assms(1) p(1,2) assms(4)]; use ans p(3) in simp)+
qed

lemma after_alloc_inv:
  assumes "client_inv rpc inv view e (world s)" "net (world s) = Some srv" "inv srv'"
    "view srv h = None" "view srv' = (view srv)(h \<mapsto> replicate (unat (n :: u32)) zero_page)"
  shows "client_inv rpc inv view e (world (after_alloc a calls n h (Some srv') pg s))"
proof -
  obtain hm where hm: "addr_hndl_map (world s) = Some hm" "inj_on hm (dom hm)"
    "\<forall>a h. hm a = Some h \<longrightarrow> view srv h \<noteq> None"
    "\<forall>h pages. view srv h = Some pages \<longrightarrow> length pages < 2 ^ 32"
    "env_ok rpc e" "connected (world s)"
    using assms(1,2) by (auto simp: client_inv_def)
  have "\<forall>x. hm x \<noteq> Some h" using hm(3) assms(4) by blast
  then have "inj_on (hm(a \<mapsto> h)) (dom (hm(a \<mapsto> h)))"
    using hm(2) by (auto simp: inj_on_def dom_def)
  moreover have "\<forall>x h'. (hm(a \<mapsto> h)) x = Some h' \<longrightarrow> view srv' h' \<noteq> None"
    using hm(3) assms(5) by auto
  moreover have "\<forall>h pages. view srv' h = Some pages \<longrightarrow> length pages < 2 ^ 32"
    using hm(4) assms(5) by auto
  ultimately show ?thesis
    using hm assms(3) by (simp add: client_inv_def after_alloc_def)
qed

lemma after_alloc_region:
  assumes s: "map_pointers s = Allocated" "page_resolver s = Some (rmp_pagefault_resovler e)"
      "addr_hndl_map (world s) = Some hm"
    and inv2: "client_inv rpc inv view e (world (after_alloc a calls n h (Some srv') pg s))"
    and v: "view srv' h = Some (replicate (unat n) zero_page)"
    and calls: "alloc_calls_ok a calls (unat n) s" and pg: "length pg = 4096"
  shows "region_rel (rmp_pagefault_resovler e) (client_inv rpc inv view e) (client_remote view)
    (userfaultfd_rc calls) a \<lparr>backing = replicate (unat n) zero_page, cached = None, last_page = pg\<rparr>
    (after_alloc a calls n h (Some srv') pg s)"
proof -
  let ?s2 = "after_alloc a calls n h (Some srv') pg s"
  have C: "region_ok a (unat n)" "no_resident a (unat n) s"
    "uffd_prev_resolved_addr s (userfaultfd_rc calls) = None"
    using calls by (simp_all add: alloc_calls_ok_def)
  have "owner ?s2 (a + of_nat t) = Some (userfaultfd_rc calls)" if "t < unat n * 4096" for t
    by (rule owner_registered [OF _ C(1) unat_page_bytes that]) (simp add: after_alloc_def)
  then show ?thesis
    using s inv2 v C pg
    by (simp add: region_rel_def base_rel_def cache_rel_def client_remote_def no_resident_def
        after_alloc_def)
qed

lemma after_alloc_keeps:
  assumes rel: "region_rel (rmp_pagefault_resovler e) (client_inv rpc inv view e) (client_remote view)
      u start' c' s"
    and out: "outside start' (length (backing c')) a (unat n)"
    and calls: "alloc_calls_ok a calls (unat n) s" and srv: "net (world s) = Some srv"
    and inv2: "client_inv rpc inv view e (world (after_alloc a calls n h (Some srv') pg s))"
    and v: "view srv h = None" "view srv' = (view srv)(h \<mapsto> pgs)" and pg: "length pg = 4096"
  shows "region_rel (rmp_pagefault_resovler e) (client_inv rpc inv view e) (client_remote view)
    u start' (c'\<lparr>last_page := pg\<rparr>) (after_alloc a calls n h (Some srv') pg s)"
proof -
  let ?s2 = "after_alloc a calls n h (Some srv') pg s"
  have B: "uffd_start_addr_map s u = Some start'" "client_remote view (world s) start' = Some (backing c')"
    "region_ok start' (length (backing c'))" "cache_rel u start' c' s"
    "\<forall>t < length (backing c') * 4096. owner s (start' + of_nat t) = Some u"
    "map_pointers s = Allocated" "page_resolver s = Some (rmp_pagefault_resovler e)"
    using rel by (simp_all add: region_rel_def base_rel_def)
  have "u \<noteq> userfaultfd_rc calls" using B(1) calls by (auto simp: alloc_calls_ok_def)
  then have u: "uffd_start_addr_map ?s2 u = Some start'" using B(1) by (simp add: after_alloc_def)
  obtain hm h' where h': "addr_hndl_map (world s) = Some hm" "hm start' = Some h'"
    "view srv h' = Some (backing c')"
    using B(2) srv by (auto simp: client_remote_def split: option.splits)
  then have "start' \<noteq> a" "h' \<noteq> h" using calls v(1) by (auto simp: alloc_calls_ok_def)
  then have "client_remote view (world ?s2) start' = Some (backing c')"
    using h' v(2) by (simp add: client_remote_def after_alloc_def)
  moreover have "cache_rel u start' c' ?s2"
    using B(4) cache_rel_cong [of ?s2 u s c' start'] by (simp add: after_alloc_def)
  then have "cache_rel u start' (c'\<lparr>last_page := pg\<rparr>) ?s2"
    by (cases "cached c'") (auto simp: cache_rel_def)
  moreover have "owner ?s2 (start' + of_nat t) = Some u" if "t < length (backing c') * 4096" for t
    using B(5) that owner_outside [OF out unat_page_bytes that, of ?s2 "userfaultfd_rc calls" s]
    by (simp add: after_alloc_def)
  ultimately show ?thesis
    using B(3,6,7) u inv2 pg by (simp add: region_rel_def base_rel_def) (simp add: after_alloc_def)
qed

lemma alloc_steps:
  assumes ready: "client_ready rpc inv view e s" and srv: "net (world s) = Some srv"
    and calls: "alloc_calls_ok a calls (unat n) s"
    and ans: "rpc (alloc_request e n) srv = Inr (p', srv')"
  obtains s1 pg where "rmp_alloc e (Some a) calls n s = Inr (a, s1)" "length pg = 4096"
    "fault_handler_thread (os e) (userfaultfd_rc calls) [] s1 =
       Inr (Polling, after_alloc a calls n (hndl p') (Some srv') pg s)"
proof -
  let ?u = "userfaultfd_rc calls"
  have R: "map_pointers s = Allocated" "env_ok rpc e" "connected (world s)" "PAGE_SIZE (os e) = 4096"
    using ready by (auto simp: client_ready_def client_inv_def env_ok_def uffd_os_ok_def)
  obtain nm hm where M: "addr_npages_map (world s) = Some nm" "addr_hndl_map (world s) = Some hm"
    using ready by (auto simp: client_ready_def client_inv_def)
  have C: "hm a = None" "?u \<noteq> - 1" "api_rc calls \<noteq> - 1" "register_rc calls \<noteq> - 1"
    "thread_rc calls = 0" "uffd_start_addr_map s ?u = None"
    using calls M(2) by (simp_all add: alloc_calls_ok_def)
  let ?f = "\<lambda>sp. (after_alloc a calls n (hndl p') (Some srv') [] s)\<lparr>scratch_page := sp\<rparr>"
  have al: "rmp_alloc e (Some a) calls n s = Inr (a, ?f (scratch_page s))"
    using R C srv ans M
    by (simp add: rmp_alloc_def transact_def env_ok_def live_exchange_def deref_def Let_def
        uffdman_register_region_def record_region_def map_insert_def after_alloc_def page_size_def)
  show ?thesis
  proof (cases "scratch_page s")
    case No_page
    then show ?thesis using that [OF al, of "replicate 4096 0"] ready R(4)
      by (simp add: fault_handler_thread_def client_ready_def after_alloc_def)
  next
    case (Page pg)
    then show ?thesis using that [OF al, of pg] ready
      by (simp add: fault_handler_thread_def client_ready_def after_alloc_def)
  qed (use ready in \<open>simp add: client_ready_def\<close>)
qed

lemma alloc_region:
  assumes ready: "client_ready rpc inv view e s" and srv: "net (world s) = Some srv"
    and calls: "alloc_calls_ok a calls (unat n) s"
    and n: "unat n * 4096 < 2 ^ 32" and room: "0 < room srv"
    and ans: "rpc (alloc_request e n) srv = Inr (p', srv')" "error p' \<noteq> ALLOC_FAILED"
  shows "\<exists>s1 s2 pg. rmp_alloc e (Some a) calls n s = Inr (a, s1) \<and>
    fault_handler_thread (os e) (userfaultfd_rc calls) [] s1 = Inr (Polling, s2) \<and>
    s2 = after_alloc a calls n (hndl p') (Some srv') pg s \<and>
    client_ready rpc inv view e s2 \<and>
    region_rel (rmp_pagefault_resovler e) (client_inv rpc inv view e) (client_remote view)
      (userfaultfd_rc calls) a
      \<lparr>backing = replicate (unat n) zero_page, cached = None, last_page = pg\<rparr> s2 \<and>
    (\<forall>u start' c'. outside start' (length (backing c')) a (unat n) \<longrightarrow>
       region_rel (rmp_pagefault_resovler e) (client_inv rpc inv view e) (client_remote view) u start' c' s \<longrightarrow>
       region_rel (rmp_pagefault_resovler e) (client_inv rpc inv view e) (client_remote view) u start'
         (c'\<lparr>last_page := pg\<rparr>) s2)"
proof -
  have R: "map_pointers s = Allocated" "page_resolver s = Some (rmp_pagefault_resovler e)"
    "client_inv rpc inv view e (world s)" "env_ok rpc e" "inv srv"
    using ready srv by (auto simp: client_ready_def client_inv_def)
  obtain hm where hm: "addr_hndl_map (world s) = Some hm" using R(3) by (auto simp: client_inv_def)
  obtain s1 pg where st: "rmp_alloc e (Some a) calls n s = Inr (a, s1)" "length pg = 4096"
    "fault_handler_thread (os e) (userfaultfd_rc calls) [] s1 =
       Inr (Polling, after_alloc a calls n (hndl p') (Some srv') pg s)" (is "_ = Inr (_, ?s2)")
    by (rule alloc_steps [OF ready srv calls ans(1)])
  note A = alloc_answer [OF R(5,4) n room ans]
  note I = after_alloc_inv [OF R(3) srv A(1-3), of a calls pg]
  have "view srv' (hndl p') = Some (replicate (unat n) zero_page)" using A(3) by simp
  note G = after_alloc_region [OF R(1,2) hm I this calls st(2)]
  have "client_ready rpc inv view e ?s2"
    using ready I st(2) by (simp add: client_ready_def) (auto simp: after_alloc_def)
  moreover have "\<forall>u start' c'. outside start' (length (backing c')) a (unat n) \<longrightarrow>
       region_rel (rmp_pagefault_resovler e) (client_inv rpc inv view e) (client_remote view) u start' c' s \<longrightarrow>
       region_rel (rmp_pagefault_resovler e) (client_inv rpc inv view e) (client_remote view) u start'
         (c'\<lparr>last_page := pg\<rparr>) ?s2"
    using after_alloc_keeps [OF _ _ calls srv I A(2,3) st(2)] by blast
  ultimately show ?thesis using st(1,3) G by blast
qed

end

end
