(* ===== verification/Remote_Props.thy ===== *)
theory Remote_Props
  imports Remote_Alloc RMP_Server_Spec
begin

text \<open>
  The client library, the userfaultfd manager and the server together. The contract
  \<^verbatim>\<open>pool_client\<close> is interpreted on the server of \<^verbatim>\<open>RMP_Server\<close>, so that everything proved of
  clients over an abstract page pool holds of clients of this server; \<open>client_region\<close> is a
  region of remote memory of such a client. The properties say what a program that uses the
  region can rely on, and where the region does not behave like memory.
\<close>

interpretation cli: pool_client "server_handle k" "\<lambda>s. kernel_ok k \<and> server_inv s" server_abs handles_left
  for k
  by (rule pool_client.intro, unfold_locales)

abbreviation server_client_inv ::
  "kernel \<Rightarrow> server_proc option client_env \<Rightarrow> server_proc option client \<Rightarrow> bool" where
  "server_client_inv k \<equiv>
     client_inv (server_handle k) (\<lambda>s. kernel_ok k \<and> server_inv s) server_abs"

abbreviation client_region ::
  "kernel \<Rightarrow> server_proc option client_env \<Rightarrow> ul \<Rightarrow> ul \<Rightarrow> obo \<Rightarrow> server_proc option client_proc \<Rightarrow> bool"
where
  "client_region k e \<equiv>
     region_rel (rmp_pagefault_resovler e) (server_client_inv k e) (client_remote server_abs)"

text \<open>
  A whole program that uses the library: connect, allocate \<open>n\<close> pages, let the handler thread
  start, and access the region by offset. The result is the list of the bytes loaded.
\<close>

definition remote_program ::
  "'n client_env \<Rightarrow> rmp_config \<Rightarrow> int \<Rightarrow> int \<Rightarrow> ul \<Rightarrow> reg_calls \<Rightarrow> u32 \<Rightarrow> nat access list \<Rightarrow> 'n \<Rightarrow>
     byte list outcome" where
  "remote_program e cfg fd rc a calls n as srv =
     (let (r, s0) = rmp_init e fd rc (client_start cfg srv)
      in ebind (rmp_alloc e (Some a) calls n s0)
           (\<lambda>(addr, s1). ebind (fault_handler_thread (os e) (userfaultfd_rc calls) [] s1)
              (\<lambda>(_, s2). ebind (app_run (os e) (at_region addr as) s2) (\<lambda>(bs, _). Inr bs))))"

text \<open>What the operating system promises of the calls of \<^verbatim>\<open>rmp_alloc\<close> in such a program.\<close>

definition first_calls_ok :: "ul \<Rightarrow> reg_calls \<Rightarrow> nat \<Rightarrow> bool" where
  "first_calls_ok a calls n \<longleftrightarrow>
     region_ok a n \<and> userfaultfd_rc calls \<noteq> - 1 \<and> api_rc calls \<noteq> - 1 \<and>
     register_rc calls \<noteq> - 1 \<and> thread_rc calls = 0"

lemma server_pages_small: "server_abs s h = Some pages \<Longrightarrow> length pages < 2 ^ 32"
  by (auto simp: server_abs_def split: option.splits)

lemma env_os [simp]: "env_ok rpc e \<Longrightarrow> uffd_os_ok (os e)"
  by (simp add: env_ok_def)

lemma server_ready:
  assumes "kernel_ok k" "server_inv srv" "env_ok (server_handle k) e" "scratch_ok (os e)"
    "0 \<le> fd" "0 \<le> rc" "first_calls_ok a calls n"
  shows "\<exists>s0. rmp_init e fd rc (client_start cfg (Some srv)) = (0, s0) \<and>
    client_ready (server_handle k) (\<lambda>s. kernel_ok k \<and> server_inv s) server_abs e s0 \<and>
    net (world s0) = Some srv \<and> alloc_calls_ok a calls n s0"
proof -
  have "\<forall>h pages. server_abs srv h = Some pages \<longrightarrow> length pages < 2 ^ 32"
    using server_pages_small by blast
  from cli.init_ready [of k srv e fd rc cfg, OF _ assms(3-6) this]
  obtain s0 where s0: "rmp_init e fd rc (client_start cfg (Some srv)) = (0, s0)"
    "client_ready (server_handle k) (\<lambda>s. kernel_ok k \<and> server_inv s) server_abs e s0"
    "net (world s0) = Some srv" "resident s0 = Map.empty"
    "addr_hndl_map (world s0) = Some Map.empty" "uffd_start_addr_map s0 = Map.empty"
    "uffd_prev_resolved_addr s0 = Map.empty"
    using assms(1,2) by blast
  have "alloc_calls_ok a calls n s0"
    using assms(7) s0(4-7) by (simp add: alloc_calls_ok_def first_calls_ok_def no_resident_def)
  then show ?thesis using s0(1-3) by blast
qed

lemma program_region:
  assumes "kernel_ok k" "server_inv srv" "0 < handles_left srv" "env_ok (server_handle k) e"
    "scratch_ok (os e)" "0 \<le> fd" "0 \<le> rc" "first_calls_ok a calls (unat n)" "unat n * 4096 < 2 ^ 32"
    "server_handle k (alloc_request e n) srv = Inr (p', srv')" "error p' \<noteq> ALLOC_FAILED"
  shows "\<exists>s pg. client_region k e (userfaultfd_rc calls) a
      \<lparr>backing = replicate (unat n) zero_page, cached = None, last_page = pg\<rparr> s \<and>
    (\<forall>as. remote_program e cfg fd rc a calls n as (Some srv) =
       ebind (app_run (os e) (at_region a as) s) (\<lambda>(bs, _). Inr bs))"
proof -
  obtain s0 where s0: "rmp_init e fd rc (client_start cfg (Some srv)) = (0, s0)"
    "client_ready (server_handle k) (\<lambda>s. kernel_ok k \<and> server_inv s) server_abs e s0"
    "net (world s0) = Some srv" "alloc_calls_ok a calls (unat n) s0"
    using server_ready [OF assms(1,2,4-8)] by blast
  from cli.alloc_region [OF s0(2-4) assms(9,3,10,11)]
  obtain s1 s2 pg where "rmp_alloc e (Some a) calls n s0 = Inr (a, s1)"
    "fault_handler_thread (os e) (userfaultfd_rc calls) [] s1 = Inr (Polling, s2)"
    "client_region k e (userfaultfd_rc calls) a
      \<lparr>backing = replicate (unat n) zero_page, cached = None, last_page = pg\<rparr> s2"
    by blast
  then show ?thesis using s0(1) by (auto simp: remote_program_def)
qed

lemma fresh_machine [simp]:
  "obo_coherent \<lparr>backing = pgs, cached = None, last_page = pg\<rparr>"
  "\<not> obo_dirty \<lparr>backing = pgs, cached = None, last_page = pg\<rparr> i"
  "\<not> obo_resident \<lparr>backing = pgs, cached = None, last_page = pg\<rparr> i"
  by (simp_all add: obo_coherent_def obo_dirty_def obo_resident_def)

lemma fresh_view:
  "t < n * 4096 \<Longrightarrow>
     obo_view \<lparr>backing = replicate n zero_page, cached = None, last_page = pg\<rparr> t = 0"
  by (simp add: obo_view_def zero_page_def page_index)

subsection \<open>A concrete client\<close>

definition demo_env :: "server_proc option client_env" where
  "demo_env =
     \<lparr>os = \<lparr>PAGE_SIZE = 4096, scratch_ok = True, copy_ok = (\<lambda>r uffd dst. r dst = None)\<rparr>,
      exchange = live_exchange (server_handle demo_kernel),
      garbage_send = sample_packet 7 7 7 7 7, garbage_recv = sample_packet 7 7 7 7 7\<rparr>"

definition demo_config :: rmp_config where
  "demo_config = \<lparr>cfg_addr = ''127.0.0.1'', cfg_port = 8080\<rparr>"

definition demo_calls :: "ul \<Rightarrow> ul \<Rightarrow> reg_calls" where
  "demo_calls fd tid =
     \<lparr>userfaultfd_rc = fd, api_rc = 0, register_rc = 0, thread_rc = 0, thrd_id = tid\<rparr>"

lemma demo_env_facts [simp]:
  "env_ok (server_handle demo_kernel) demo_env" "scratch_ok (os demo_env)"
  "uffd_os_ok (os demo_env)"
  by (simp_all add: env_ok_def demo_env_def uffd_os_ok_def packet_ok_def)

lemma demo_calls_sel [simp]: "userfaultfd_rc (demo_calls fd tid) = fd"
  by (simp add: demo_calls_def)

lemma demo_first_calls: "first_calls_ok 1048576 (demo_calls 5 9) 2"
  by (simp add: first_calls_ok_def demo_calls_def region_ok_def)

lemma new_server_inv [simp]: "server_inv (new_server Map.empty)"
  by (simp add: server_inv_def new_server_def regions_disjoint_def)

lemma new_server_left [simp]: "handles_left (new_server m) = 4294967295"
  by (simp add: handles_left_def new_server_def)

lemma demo_alloc_answer:
  "server_handle demo_kernel (alloc_request demo_env 2) (new_server Map.empty) =
     Inr ((alloc_request demo_env 2)\<lparr>hndl := 0\<rparr>, demo_server)"
proof -
  have "server_alloc demo_kernel 2 4096 (new_server Map.empty) = (0, demo_server)"
    by (simp add: demo_server_eq server_alloc_eq demo_mmap [simplified])
  then show ?thesis
    by (simp add: server_handle_def handle_alloc_def alloc_request_def demo_env_def page_size_def)
qed

lemma demo_alloc_no_error: "error ((alloc_request demo_env 2)\<lparr>hndl := 0\<rparr>) \<noteq> ALLOC_FAILED"
  by (simp add: alloc_request_def demo_env_def sample_packet_def error_codes)

lemma demo_program_region:
  "\<exists>s pg. client_region demo_kernel demo_env 5 1048576
      \<lparr>backing = replicate 2 zero_page, cached = None, last_page = pg\<rparr> s"
proof -
  have "first_calls_ok 1048576 (demo_calls 5 9) (unat (2 :: u32))"
    using demo_first_calls by simp
  then show ?thesis
    using program_region [OF _ _ _ demo_env_facts(1,2) _ _ _ _ demo_alloc_answer
      demo_alloc_no_error, of 3 0 1048576 "demo_calls 5 9" demo_config]
    by auto
qed

lemma demo_ready:
  obtains s where "client_ready (server_handle demo_kernel)
      (\<lambda>s. kernel_ok demo_kernel \<and> server_inv s) server_abs demo_env s"
    "net (world s) = Some (new_server Map.empty)"
    "alloc_calls_ok 1048576 (demo_calls 5 9) (unat (2 :: u32)) s"
    "resident s = Map.empty" "addr_hndl_map (world s) = Some Map.empty"
    "uffd_start_addr_map s = Map.empty" "uffd_prev_resolved_addr s = Map.empty"
    "start_addr_uffd_map s = Map.empty"
proof -
  have "kernel_ok demo_kernel \<and> server_inv (new_server Map.empty)" by simp
  moreover have "\<forall>h pages. server_abs (new_server Map.empty) h = Some pages \<longrightarrow> length pages < 2 ^ 32"
    using server_pages_small by blast
  ultimately obtain s where s: "client_ready (server_handle demo_kernel)
      (\<lambda>s. kernel_ok demo_kernel \<and> server_inv s) server_abs demo_env s"
    "net (world s) = Some (new_server Map.empty)" "resident s = Map.empty"
    "addr_hndl_map (world s) = Some Map.empty" "uffd_start_addr_map s = Map.empty"
    "uffd_prev_resolved_addr s = Map.empty" "start_addr_uffd_map s = Map.empty"
    using cli.init_ready [of demo_kernel "new_server Map.empty" demo_env 3 0 demo_config]
      demo_env_facts(1,2) by auto
  moreover have "alloc_calls_ok 1048576 (demo_calls 5 9) (unat (2 :: u32)) s"
    using s(3-6) demo_first_calls
    by (simp add: alloc_calls_ok_def first_calls_ok_def no_resident_def)
  ultimately show ?thesis using that by blast
qed

subsection \<open>Regions\<close>

text \<open>
  C16. Allocation. A connected client that allocates n pages (n * 4096 below 2^32) from a server
  that has them gets the address its mmap returned; once the handler thread has started, the
  address is the start of a region of remote memory whose n pages, kept by the server under the
  handle it answered, are zero and none of which is resident; the client can allocate again; and
  every region the client already had elsewhere is kept as it was.
\<close>

theorem rmp_alloc_makes_region:
  assumes "client_ready (server_handle k) (\<lambda>s. kernel_ok k \<and> server_inv s) server_abs e s"
    "net (world s) = Some srv" "alloc_calls_ok a calls (unat n) s" "unat n * 4096 < 2 ^ 32"
    "0 < handles_left srv" "server_handle k (alloc_request e n) srv = Inr (p', srv')"
    "error p' \<noteq> ALLOC_FAILED"
  shows "\<exists>s1 s2 pg. rmp_alloc e (Some a) calls n s = Inr (a, s1) \<and>
    fault_handler_thread (os e) (userfaultfd_rc calls) [] s1 = Inr (Polling, s2) \<and>
    client_ready (server_handle k) (\<lambda>s. kernel_ok k \<and> server_inv s) server_abs e s2 \<and>
    client_region k e (userfaultfd_rc calls) a
      \<lparr>backing = replicate (unat n) zero_page, cached = None, last_page = pg\<rparr> s2 \<and>
    (\<forall>u start' c'. outside start' (length (backing c')) a (unat n) \<longrightarrow>
       client_region k e u start' c' s \<longrightarrow> client_region k e u start' (c'\<lparr>last_page := pg\<rparr>) s2)"
  using cli.alloc_region [OF assms] by blast

theorem rmp_alloc_makes_region_witness:
  "\<exists>s s1 s2 pg. rmp_alloc demo_env (Some 1048576) (demo_calls 5 9) 2 s = Inr (1048576, s1) \<and>
     client_region demo_kernel demo_env 5 1048576
       \<lparr>backing = replicate 2 zero_page, cached = None, last_page = pg\<rparr> s2"
proof -
  obtain s where s: "client_ready (server_handle demo_kernel)
      (\<lambda>s. kernel_ok demo_kernel \<and> server_inv s) server_abs demo_env s"
    "net (world s) = Some (new_server Map.empty)"
    "alloc_calls_ok 1048576 (demo_calls 5 9) (unat (2 :: u32)) s"
    by (rule demo_ready)
  from rmp_alloc_makes_region [OF s _ _ demo_alloc_answer demo_alloc_no_error]
  have "\<exists>s1 s2 pg. rmp_alloc demo_env (Some 1048576) (demo_calls 5 9) 2 s = Inr (1048576, s1) \<and>
     client_region demo_kernel demo_env 5 1048576
       \<lparr>backing = replicate 2 zero_page, cached = None, last_page = pg\<rparr> s2"
    by auto
  then show ?thesis by blast
qed

text \<open>
  C17. Refinement. Whatever sequence of byte loads and stores an application makes inside a
  region of remote memory, it completes, it loads the bytes that the off-by-one machine of
  \<^verbatim>\<open>Off_By_One_Bytes\<close> loads, the region ends in the state of that machine, and apart from the
  scratch page of the manager, the last page of the machine, nothing outside the region changes: no
  other descriptor's maps, no other resident page, no other region's pages on the server.
\<close>

theorem app_run_refines_off_by_one:
  assumes "client_region k e uffd start c s" "env_ok (server_handle k) e"
    "\<forall>ac \<in> set as. in_region (length (backing c) * 4096) ac"
  shows "\<exists>s'. app_run (os e) (at_region start as) s = Inr (fst (obo_run as c), s') \<and>
    client_region k e uffd start (snd (obo_run as c)) s' \<and>
    elsewhere_same (client_remote server_abs) uffd start (length (backing c)) s s'"
  by (rule cli.pb.run_refines [OF assms(1) env_os [OF assms(2)] assms(3)])

theorem app_run_refines_off_by_one_witness:
  "\<exists>s s' c. client_region demo_kernel demo_env 5 1048576 c s \<and>
     app_run (os demo_env) (at_region 1048576 [Store 0 1, Load 4096, Load 0]) s =
       Inr (fst (obo_run [Store 0 1, Load 4096, Load 0] c), s')"
proof -
  obtain s pg where "client_region demo_kernel demo_env 5 1048576
      \<lparr>backing = replicate 2 zero_page, cached = None, last_page = pg\<rparr> s"
    using demo_program_region by blast
  moreover from app_run_refines_off_by_one [OF this demo_env_facts(1),
      of "[Store 0 1, Load 4096, Load 0]"]
  have "\<exists>s'. app_run (os demo_env) (at_region 1048576 [Store 0 1, Load 4096, Load 0]) s =
       Inr (fst (obo_run [Store 0 1, Load 4096, Load 0]
         \<lparr>backing = replicate 2 zero_page, cached = None, last_page = pg\<rparr>), s')"
    unfolding at_region_def by auto
  ultimately show ?thesis by blast
qed

subsection \<open>Whole programs\<close>

text \<open>
  C18. Fill and read back. A program that connects to a server with room, allocates n pages,
  writes every byte of them once in ascending order and then loads any bytes in any order runs
  to its end and loads exactly the bytes it wrote: the pages that had to leave the client in
  between came back from the server unchanged.
\<close>

theorem remote_fill_read_back:
  assumes "kernel_ok k" "server_inv srv" "0 < handles_left srv" "env_ok (server_handle k) e"
    "scratch_ok (os e)" "0 \<le> fd" "0 \<le> rc" "first_calls_ok a calls (unat n)" "unat n * 4096 < 2 ^ 32"
    "server_handle k (alloc_request e n) srv = Inr (p', srv')" "error p' \<noteq> ALLOC_FAILED"
    and "length bs = unat n * 4096" "\<forall>t \<in> set ts. t < length bs"
  shows "remote_program e cfg fd rc a calls n (fill 0 bs @ map Load ts) (Some srv) =
    Inr (map (\<lambda>t. bs ! t) ts)"
proof -
  obtain s pg where s: "client_region k e (userfaultfd_rc calls) a
      \<lparr>backing = replicate (unat n) zero_page, cached = None, last_page = pg\<rparr> s"
    "\<forall>as. remote_program e cfg fd rc a calls n as (Some srv) =
       ebind (app_run (os e) (at_region a as) s) (\<lambda>(bs, _). Inr bs)"
    using program_region [OF assms(1-11)] by blast
  obtain s' where "app_run (os e) (at_region a (fill 0 bs @ map Load ts)) s =
      Inr (map (\<lambda>t. bs ! t) ts, s')"
    using cli.pb.fill_read [OF s(1) env_os [OF assms(4)], of bs ts] assms(12,13) by auto
  then show ?thesis by (simp add: s(2) del: at_region_append)
qed

theorem remote_fill_read_back_witness:
  "remote_program demo_env demo_config 3 0 1048576 (demo_calls 5 9) 2
     (fill 0 (replicate 4096 1 @ replicate 4096 2) @ map Load [0, 8191, 4095, 4096])
     (Some (new_server Map.empty)) = Inr [1, 2, 1, 2]"
proof -
  let ?bs = "replicate 4096 1 @ replicate 4096 (2 :: byte)"
  have "first_calls_ok 1048576 (demo_calls 5 9) (unat (2 :: u32))" using demo_first_calls by simp
  then have "remote_program demo_env demo_config 3 0 1048576 (demo_calls 5 9) 2
     (fill 0 ?bs @ map Load [0, 8191, 4095, 4096]) (Some (new_server Map.empty)) =
     Inr (map (\<lambda>t. ?bs ! t) [0, 8191, 4095, 4096])"
    by (intro remote_fill_read_back [OF _ _ _ demo_env_facts(1,2) _ _ _ _ demo_alloc_answer
          demo_alloc_no_error]) simp_all
  also have "map (\<lambda>t. ?bs ! t) [0, 8191, 4095, 4096] = [1, 2, 1, 2]" by (simp add: nth_append)
  finally show ?thesis .
qed

text \<open>
  C19. Fresh memory. Before anything is written, every byte of the allocated region is zero.
\<close>

theorem remote_fresh_zero:
  assumes "kernel_ok k" "server_inv srv" "0 < handles_left srv" "env_ok (server_handle k) e"
    "scratch_ok (os e)" "0 \<le> fd" "0 \<le> rc" "first_calls_ok a calls (unat n)" "unat n * 4096 < 2 ^ 32"
    "server_handle k (alloc_request e n) srv = Inr (p', srv')" "error p' \<noteq> ALLOC_FAILED"
    and "\<forall>t \<in> set ts. t < unat n * 4096"
  shows "remote_program e cfg fd rc a calls n (map Load ts) (Some srv) = Inr (replicate (length ts) 0)"
proof -
  obtain s pg where s: "client_region k e (userfaultfd_rc calls) a
      \<lparr>backing = replicate (unat n) zero_page, cached = None, last_page = pg\<rparr> s" (is "region_rel _ _ _ _ _ ?c _")
    "\<forall>as. remote_program e cfg fd rc a calls n as (Some srv) =
       ebind (app_run (os e) (at_region a as) s) (\<lambda>(bs, _). Inr bs)"
    using program_region [OF assms(1-11)] by blast
  obtain s' where "app_run (os e) (at_region a (map Load ts)) s = Inr (map (obo_view ?c) ts, s')"
    using cli.pb.loads_view [OF s(1) env_os [OF assms(4)], of ts] assms(12) by auto
  moreover have "map (obo_view ?c) ts = replicate (length ts) 0"
    using assms(12) fresh_view [of _ "unat n" pg] by (simp add: map_replicate_const [symmetric])
  ultimately show ?thesis by (simp add: s(2))
qed

theorem remote_fresh_zero_witness:
  "remote_program demo_env demo_config 3 0 1048576 (demo_calls 5 9) 2 (map Load [17, 5000])
     (Some (new_server Map.empty)) = Inr [0, 0]"
proof -
  have "first_calls_ok 1048576 (demo_calls 5 9) (unat (2 :: u32))" using demo_first_calls by simp
  then have "remote_program demo_env demo_config 3 0 1048576 (demo_calls 5 9) 2 (map Load [17, 5000])
     (Some (new_server Map.empty)) = Inr (replicate (length [17, 5000 :: nat]) 0)"
    by (intro remote_fresh_zero [OF _ _ _ demo_env_facts(1,2) _ _ _ _ demo_alloc_answer
          demo_alloc_no_error]) simp_all
  then show ?thesis by (simp add: numeral_2_eq_2)
qed

text \<open>
  C20. Lost updates. The region is not memory: a program that loads a byte, stores b to it, loads
  it (and gets b), loads a byte of another page and loads the first byte again gets the old value,
  zero. The page came in by a read fault, so the manager takes it for unchanged and drops it
  without writing it back.
\<close>

theorem remote_lost_update:
  assumes "kernel_ok k" "server_inv srv" "0 < handles_left srv" "env_ok (server_handle k) e"
    "scratch_ok (os e)" "0 \<le> fd" "0 \<le> rc" "first_calls_ok a calls (unat n)" "unat n * 4096 < 2 ^ 32"
    "server_handle k (alloc_request e n) srv = Inr (p', srv')" "error p' \<noteq> ALLOC_FAILED"
    and "t < unat n * 4096" "u < unat n * 4096" "u div 4096 \<noteq> t div 4096"
  shows "remote_program e cfg fd rc a calls n [Load t, Store t b, Load t, Load u, Load t] (Some srv) =
    Inr [0, b, 0, 0]"
proof -
  obtain s pg where s: "client_region k e (userfaultfd_rc calls) a
      \<lparr>backing = replicate (unat n) zero_page, cached = None, last_page = pg\<rparr> s" (is "region_rel _ _ _ _ _ ?c _")
    "\<forall>as. remote_program e cfg fd rc a calls n as (Some srv) =
       ebind (app_run (os e) (at_region a as) s) (\<lambda>(bs, _). Inr bs)"
    using program_region [OF assms(1-11)] by blast
  obtain s' where "app_run (os e) (at_region a [Load t, Store t b, Load t, Load u, Load t]) s =
      Inr ([obo_view ?c t, b, obo_view ?c u, obo_view ?c t], s')"
    using cli.pb.lost_update [OF s(1) env_os [OF assms(4)], of t u b] assms(12-14) by auto
  then show ?thesis
    by (simp add: s(2) fresh_view [OF assms(12)] fresh_view [OF assms(13)] del: at_region_simps)
qed

theorem remote_lost_update_witness:
  "remote_program demo_env demo_config 3 0 1048576 (demo_calls 5 9) 2
     [Load 8, Store 8 42, Load 8, Load 4096, Load 8] (Some (new_server Map.empty)) = Inr [0, 42, 0, 0]"
proof -
  have "first_calls_ok 1048576 (demo_calls 5 9) (unat (2 :: u32))" using demo_first_calls by simp
  then show ?thesis
    by (intro remote_lost_update [OF _ _ _ demo_env_facts(1,2) _ _ _ _ demo_alloc_answer
          demo_alloc_no_error]) simp_all
qed

subsection \<open>What a store does to its page\<close>

lemma demo_alloc2_answer:
  "server_handle demo_kernel (alloc_request demo_env 1) demo_server =
     Inr ((alloc_request demo_env 1)\<lparr>hndl := 1\<rparr>, demo_server2)"
proof -
  have "server_alloc demo_kernel 1 4096 demo_server = (1, demo_server2)"
    using demo_mmap2 by (simp add: demo_server2_eq server_alloc_eq)
  then show ?thesis
    by (simp add: server_handle_def handle_alloc_def alloc_request_def demo_env_def page_size_def)
qed

text \<open>A client with two regions, of two pages and of one page.\<close>

lemma demo_two_regions:
  obtains s pg where "client_region demo_kernel demo_env 5 1048576
      \<lparr>backing = replicate 2 zero_page, cached = None, last_page = pg\<rparr> s"
    "client_region demo_kernel demo_env 6 2097152
      \<lparr>backing = replicate 1 zero_page, cached = None, last_page = pg\<rparr> s"
proof -
  obtain s where s: "client_ready (server_handle demo_kernel)
      (\<lambda>s. kernel_ok demo_kernel \<and> server_inv s) server_abs demo_env s"
    "net (world s) = Some (new_server Map.empty)"
    "alloc_calls_ok 1048576 (demo_calls 5 9) (unat (2 :: u32)) s"
    "resident s = Map.empty" "addr_hndl_map (world s) = Some Map.empty"
    "uffd_start_addr_map s = Map.empty" "uffd_prev_resolved_addr s = Map.empty"
    by (rule demo_ready)
  have "unat (2 :: u32) * 4096 < 2 ^ 32" "0 < handles_left (new_server Map.empty)" by simp_all
  from cli.alloc_region [OF s(1-3) this demo_alloc_answer demo_alloc_no_error]
  obtain s2 pg where s2: "s2 = after_alloc 1048576 (demo_calls 5 9) 2 0 (Some demo_server) pg s"
    "client_ready (server_handle demo_kernel)
      (\<lambda>s. kernel_ok demo_kernel \<and> server_inv s) server_abs demo_env s2"
    "client_region demo_kernel demo_env 5 1048576
      \<lparr>backing = replicate 2 zero_page, cached = None, last_page = pg\<rparr> s2"
    by (auto simp del: kernel_ok_slot_kernel)
  have net2: "net (world s2) = Some demo_server" by (simp add: s2(1) after_alloc_def)
  have calls2: "alloc_calls_ok 2097152 (demo_calls 6 10) (unat (1 :: u32)) s2"
    using s(4-7)
    by (simp add: s2(1) after_alloc_def alloc_calls_ok_def demo_calls_def region_ok_def
        no_resident_def)
  have n2: "unat (1 :: u32) * 4096 < 2 ^ 32" "0 < handles_left demo_server" by simp_all
  have noerr: "error ((alloc_request demo_env 1)\<lparr>hndl := 1\<rparr>) \<noteq> ALLOC_FAILED"
    by (simp add: alloc_request_def demo_env_def sample_packet_def error_codes)
  from cli.alloc_region [OF s2(2) net2 calls2 n2 demo_alloc2_answer noerr]
  obtain s3 pg' where s3: "client_region demo_kernel demo_env 6 2097152
      \<lparr>backing = replicate 1 zero_page, cached = None, last_page = pg'\<rparr> s3"
    "\<forall>u start' c'. outside start' (length (backing c')) 2097152 1 \<longrightarrow>
       client_region demo_kernel demo_env u start' c' s2 \<longrightarrow>
       client_region demo_kernel demo_env u start' (c'\<lparr>last_page := pg'\<rparr>) s3"
    by (auto simp del: kernel_ok_slot_kernel)
  have "outside 1048576 2 2097152 1" by (rule outside_below) (simp_all add: region_ok_def)
  then have "client_region demo_kernel demo_env 5 1048576
      \<lparr>backing = replicate 2 zero_page, cached = None, last_page = pg'\<rparr> s3"
    using s3(2) [rule_format, OF _ s2(3)] by simp
  then show ?thesis using that s3(1) by blast
qed

lemma demo_apart: "apart 1048576 2 2097152 1"
  by (auto simp: apart_def region_page_def less_2_cases_iff)

text \<open>
  The same client when the first page of the first region has been filled with ones and is no
  longer resident; the rest is fresh.
\<close>

lemma demo_half_filled:
  obtains s c pg where "client_region demo_kernel demo_env 5 1048576 c s" "obo_coherent c"
    "\<not> obo_resident c 0" "length (backing c) = 2"
    "\<forall>u < 4096. obo_view c u = 1" "obo_view c 4097 = 0"
    "client_region demo_kernel demo_env 6 2097152
      \<lparr>backing = replicate 1 zero_page, cached = None, last_page = pg\<rparr> s"
proof -
  obtain s0 pg where s0: "client_region demo_kernel demo_env 5 1048576
      \<lparr>backing = replicate 2 zero_page, cached = None, last_page = pg\<rparr> s0" (is "region_rel _ _ _ _ _ ?fresh _")
    "client_region demo_kernel demo_env 6 2097152
      \<lparr>backing = replicate 1 zero_page, cached = None, last_page = pg\<rparr> s0" (is "region_rel _ _ _ _ _ ?other _")
    by (rule demo_two_regions)
  have ok: "obo_ok ?fresh" by (rule cli.pb.region_obo_ok [OF s0(1)])
  let ?bs = "replicate 4096 (1 :: byte)"
  obtain c1 where c1: "obo_run (fill 0 ?bs) ?fresh = ([], c1)" "obo_ok c1" "obo_coherent c1"
    "length (backing c1) = 2" "obo_dirty c1 0" "\<forall>i < 4096. obo_view c1 i = 1"
    "\<forall>u. u div 4096 = 1 \<longrightarrow> obo_view c1 u = obo_view ?fresh u"
    using obo_fill [OF ok, of 0 ?bs] by auto
  let ?c = "snd (obo_load 4096 c1)"
  have L: "obo_coherent ?c" "\<forall>u. obo_view ?c u = obo_view c1 u" "length (backing ?c) = 2"
    using obo_load_spec [OF c1(2,3), of 4096] c1(4) by auto
  have "\<not> obo_resident c1 1" using obo_dirty_resident [OF c1(5)] by simp
  then have nr: "\<not> obo_resident ?c 0"
    using obo_load_cached(1) [of c1 4096] by (simp add: obo_resident_def)
  let ?as = "fill 0 ?bs @ [Load 4096]"
  have "\<forall>ac \<in> set ?as. in_region (length (backing ?fresh) * 4096) ac"
    using fill_in_region [of 0 ?bs 8192] by auto
  from cli.pb.pair_step [OF s0(1) demo_env_facts(3) s0(2) _ _ this]
  obtain s where "client_region demo_kernel demo_env 5 1048576 (snd (obo_run ?as ?fresh)) s"
    "client_region demo_kernel demo_env 6 2097152
      (?other\<lparr>last_page := last_page (snd (obo_run ?as ?fresh))\<rparr>) s"
    using demo_apart by auto
  moreover have "snd (obo_run ?as ?fresh) = ?c"
    by (simp add: obo_run_append c1(1) split_beta Let_def)
  moreover have "obo_view ?c 4097 = 0" using L(2) c1(7) fresh_view [of 4097 2 pg] by simp
  ultimately show ?thesis using that L nr c1(6) by auto
qed

text \<open>
  C21. Stale pages. A store to a page that is not resident does not fetch the page: after loading
  a byte of page j, storing to byte t of page i and loading another byte v of page i, the program
  gets the byte at the same place of page j, whatever page i held.
\<close>

theorem remote_stale_page:
  assumes "client_region k e uffd start c s" "env_ok (server_handle k) e" "obo_coherent c"
    "t < length (backing c) * 4096" "u < length (backing c) * 4096" "v < length (backing c) * 4096"
    "v \<noteq> t" "u div 4096 \<noteq> t div 4096" "v div 4096 = t div 4096"
    "\<not> obo_resident c (u div 4096)"
  shows "\<exists>s'. app_run (os e) (at_region start [Load u, Store t b, Load v]) s =
    Inr ([obo_view c u, obo_view c (u div 4096 * 4096 + v mod 4096)], s')"
  by (rule cli.pb.stale_page [OF assms(1) env_os [OF assms(2)] assms(3-10)])

theorem remote_stale_page_witness:
  "\<exists>s c s'. client_region demo_kernel demo_env 5 1048576 c s \<and> obo_view c 4097 = 0 \<and>
     app_run (os demo_env) (at_region 1048576 [Load 5, Store 4096 7, Load 4097]) s = Inr ([1, 1], s')"
proof -
  obtain s c where s: "client_region demo_kernel demo_env 5 1048576 c s" "obo_coherent c"
    "\<not> obo_resident c 0" "length (backing c) = 2"
    "\<forall>u < 4096. obo_view c u = 1" "obo_view c 4097 = 0"
    by (rule demo_half_filled)
  have "\<exists>s'. app_run (os demo_env) (at_region 1048576 [Load 5, Store 4096 7, Load 4097]) s =
      Inr ([obo_view c 5, obo_view c (5 div 4096 * 4096 + 4097 mod 4096)], s')"
    by (rule remote_stale_page [OF s(1) demo_env_facts(1) s(2)]) (simp_all add: s(3,4))
  then have "\<exists>s'. app_run (os demo_env) (at_region 1048576 [Load 5, Store 4096 7, Load 4097]) s =
      Inr ([1, 1], s')"
    using s(5) by (simp only: ) simp
  then show ?thesis using s(1,6) by blast
qed

text \<open>
  C22. Two regions. Any interleaving of loads and stores inside two disjoint regions completes and
  behaves as two off-by-one machines do that share nothing but their last page, the scratch page of
  the manager: backing pages and resident pages of one region are out of reach of the other, and
  both regions end in the states of the two machines.
\<close>

theorem remote_two_regions_refine:
  assumes "client_region k e uffd start c s" "env_ok (server_handle k) e"
    "client_region k e uffd' start' d s" "uffd \<noteq> uffd'"
    "apart start (length (backing c)) start' (length (backing d))"
    "\<forall>(x, ac) \<in> set as. in_region (length (backing (if x then c else d)) * 4096) ac"
  shows "\<exists>s'. app_run (os e) (at_pair start start' as) s = Inr (fst (pair_run as c d), s') \<and>
    client_region k e uffd start (fst (snd (pair_run as c d))) s' \<and>
    client_region k e uffd' start' (snd (snd (pair_run as c d))) s'"
  by (rule cli.pb.pair_refines [OF assms(1) env_os [OF assms(2)] assms(3-6)])

theorem remote_two_regions_refine_witness:
  "\<exists>(s :: server_proc option client_proc) s'. app_run (os demo_env)
     (at_pair 1048576 2097152 [(True, Store 0 7), (False, Load 0), (False, Store 9 5), (True, Load 0), (False, Load 9)]) s =
     Inr ([0, 7, 5], s')"
proof -
  let ?as = "[(True, Store 0 7), (False, Load 0), (False, Store 9 5), (True, Load 0), (False, Load 9)]"
  obtain s pg where s: "client_region demo_kernel demo_env 5 1048576
      \<lparr>backing = replicate 2 zero_page, cached = None, last_page = pg\<rparr> s" (is "region_rel _ _ _ _ _ ?x _")
    "client_region demo_kernel demo_env 6 2097152
      \<lparr>backing = replicate 1 zero_page, cached = None, last_page = pg\<rparr> s" (is "region_rel _ _ _ _ _ ?y _")
    by (rule demo_two_regions)
  have "length pg = 4096" using cli.pb.region_obo_ok [OF s(1)] by (simp add: obo_ok_def)
  then have run: "fst (pair_run ?as ?x ?y) = [0, 7, 5]"
    by (simp add: Let_def obo_store_def obo_load_def obo_touch_def obo_resident_def obo_fault_def
        obo_evict_def obo_view_def zero_page_def)
  have "\<exists>s'. app_run (os demo_env) (at_pair 1048576 2097152 ?as) s = Inr (fst (pair_run ?as ?x ?y), s')"
    using remote_two_regions_refine [OF s(1) demo_env_facts(1) s(2), of ?as] demo_apart by auto
  then show ?thesis unfolding run by blast
qed

text \<open>
  C29. What two regions share. Whatever a program does inside one region, loads alone in a disjoint
  region return what that region held before. But a store there can bring in data of the first
  region: after loading byte u of the first region, storing to a page of the second one that is not
  resident and loading another byte v of that page, the program gets the byte of the first region
  that lies at the place of v in the page of u. Every region of a process shares one scratch page.
\<close>

theorem remote_regions_share_scratch:
  assumes "client_region k e uffd start c s" "env_ok (server_handle k) e"
    "client_region k e uffd' start' d s" "obo_coherent c" "obo_coherent d" "uffd \<noteq> uffd'"
    "apart start (length (backing c)) start' (length (backing d))"
    and loads: "\<forall>ac \<in> set as. in_region (length (backing c) * 4096) ac"
      "\<forall>x \<in> set ts. x < length (backing d) * 4096"
    and leak: "u < length (backing c) * 4096" "\<not> obo_resident c (u div 4096)"
      "t < length (backing d) * 4096" "v < length (backing d) * 4096" "v \<noteq> t"
      "v div 4096 = t div 4096" "\<not> obo_resident d (t div 4096)"
  shows "(\<exists>s'. app_run (os e) (at_region start as @ at_region start' (map Load ts)) s =
      Inr (fst (obo_run as c) @ map (obo_view d) ts, s')) \<and>
    (\<exists>s'. app_run (os e) (at_region start [Load u] @ at_region start' [Store t b, Load v]) s =
      Inr ([obo_view c u, obo_view c (u div 4096 * 4096 + v mod 4096)], s'))"
proof
  note os = env_os [OF assms(2)]
  show "\<exists>s'. app_run (os e) (at_region start as @ at_region start' (map Load ts)) s =
      Inr (fst (obo_run as c) @ map (obo_view d) ts, s')"
    by (rule cli.pb.regions_independent [OF assms(1) os assms(3,5-7) loads])
  show "\<exists>s'. app_run (os e) (at_region start [Load u] @ at_region start' [Store t b, Load v]) s =
      Inr ([obo_view c u, obo_view c (u div 4096 * 4096 + v mod 4096)], s')"
    using cli.pb.scratch_leak [OF assms(1) os assms(3-7) leak, of b] by simp
qed

theorem remote_regions_share_scratch_witness:
  "\<exists>s d s1 s2. client_region demo_kernel demo_env 5 1048576 d s \<and> obo_view d 1 = 1 \<and>
     app_run (os demo_env) (at_region 2097152 [Load 0] @ at_region 1048576 (map Load [1])) s = Inr ([0, 1], s1) \<and>
     app_run (os demo_env) (at_region 2097152 [Load 0] @ at_region 1048576 [Store 0 7, Load 1]) s = Inr ([0, 0], s2)"
proof -
  obtain s d pg where s: "client_region demo_kernel demo_env 5 1048576 d s" "obo_coherent d"
    "\<not> obo_resident d 0" "length (backing d) = 2" "\<forall>u < 4096. obo_view d u = 1"
    "client_region demo_kernel demo_env 6 2097152
      \<lparr>backing = replicate 1 zero_page, cached = None, last_page = pg\<rparr> s" (is "region_rel _ _ _ _ _ ?c _")
    by (rule demo_half_filled)
  have c: "obo_view ?c 0 = 0" "obo_view ?c 1 = 0" using fresh_view [of _ 1 pg] by simp_all
  have "fst (obo_run [Load 0] ?c) = [0]"
    using obo_load_spec(1) [OF cli.pb.region_obo_ok [OF s(6)], of 0] c(1) by (simp add: split_beta Let_def)
  moreover have "apart 2097152 (length (backing ?c)) 1048576 (length (backing d))"
    using apart_sym [OF demo_apart] s(4) by simp
  note remote_regions_share_scratch [OF s(6) demo_env_facts(1) s(1) fresh_machine(1) s(2) _ this,
      of "[Load 0]" "[1]" 0 0 1 7]
  ultimately have "(\<exists>s1. app_run (os demo_env)
      (at_region 2097152 [Load 0] @ at_region 1048576 (map Load [1])) s = Inr ([0, 1], s1)) \<and>
    (\<exists>s2. app_run (os demo_env)
      (at_region 2097152 [Load 0] @ at_region 1048576 [Store 0 7, Load 1]) s = Inr ([0, 0], s2))"
    using s(3,4,5) c by (simp del: at_region_simps)
  moreover have "obo_view d 1 = 1" using s(5) by simp
  ultimately show ?thesis using s(1) by blast
qed

subsection \<open>Residency and the end of a region\<close>

text \<open>
  C23. Off by one. After any accesses of an application to a region, at most one page of the
  region is resident in the client, and it is the page the manager has recorded as the one it
  resolved last.
\<close>

theorem one_page_resident:
  assumes "client_region k e uffd start c s" "env_ok (server_handle k) e"
    "\<forall>ac \<in> set as. in_region (length (backing c) * 4096) ac"
    "app_run (os e) (at_region start as) s = Inr (bs, s')"
    "i < length (backing c)" "resident s' (region_page start i) \<noteq> None"
  shows "uffd_prev_resolved_addr s' uffd = Some (region_page start i) \<and>
    (\<forall>j < length (backing c). j \<noteq> i \<longrightarrow> resident s' (region_page start j) = None)"
proof -
  let ?c = "snd (obo_run as c)"
  have rel: "client_region k e uffd start ?c s'"
    using cli.pb.run_refines [OF assms(1) env_os [OF assms(2)] assms(3)] assms(4) by auto
  then have C: "cache_rel uffd start ?c s'" by (simp add: region_rel_def)
  have len: "length (backing ?c) = length (backing c)" by simp
  obtain d pg where "cached ?c = Some (i, d, pg)"
    using cache_rel_resident [OF C, of i] assms(5,6) len by (auto split: option.splits if_splits)
  then show ?thesis using C len by (simp add: cache_rel_Some)
qed

theorem one_page_resident_witness:
  "\<exists>(s :: server_proc option client_proc) s' bs.
     app_run (os demo_env) (at_region 1048576 [Store 0 7, Load 4096]) s = Inr (bs, s') \<and>
     resident s' (region_page 1048576 1) \<noteq> None \<and> resident s' (region_page 1048576 0) = None"
proof -
  obtain s pg where s: "client_region demo_kernel demo_env 5 1048576
      \<lparr>backing = replicate 2 zero_page, cached = None, last_page = pg\<rparr> s" (is "region_rel _ _ _ _ _ ?c _")
    using demo_program_region by blast
  let ?as = "[Store 0 7, Load 4096]"
  have as: "\<forall>ac \<in> set ?as. in_region (length (backing ?c) * 4096) ac" by simp
  obtain s' where s': "app_run (os demo_env) (at_region 1048576 ?as) s = Inr (fst (obo_run ?as ?c), s')"
    "client_region demo_kernel demo_env 5 1048576 (snd (obo_run ?as ?c)) s'"
    using cli.pb.run_refines [OF s demo_env_facts(3) as] by blast
  have "obo_resident (snd (obo_run ?as ?c)) 1"
    using obo_touch_simps(2) [of False 4096] by (simp add: split_beta Let_def obo_load_def)
  moreover have "cache_rel 5 1048576 (snd (obo_run ?as ?c)) s'" using s'(2) by (simp add: region_rel_def)
  ultimately have r: "resident s' (region_page 1048576 1) \<noteq> None"
    using obo_resident_eq [of 5 1048576 "snd (obo_run ?as ?c)" s' 1]
    by (simp only: obo_run_length) simp
  from one_page_resident [OF s demo_env_facts(1) as s'(1) _ r]
  have "resident s' (region_page 1048576 0) = None" by simp
  then show ?thesis using s'(1) r by blast
qed

text \<open>
  C24. Unregistering. Unregistering a region of remote memory succeeds: the resident page is
  written to the server if a write fault brought it in, no page of the region stays resident, the
  region's entries leave the maps in both directions, and the pages the server keeps for the
  client's other regions are unchanged.
\<close>

theorem unregister_flushes_region:
  assumes "client_region k e uffd start c s" "start_addr_uffd_map s start = Some uffd"
  shows "\<exists>s'. uffdman_unregister_region 4096 start s = Inr s' \<and>
    client_remote server_abs (world s') =
      (client_remote server_abs (world s))(start \<mapsto> backing (obo_evict c)) \<and>
    no_resident start (length (backing c)) s' \<and>
    start_addr_uffd_map s' = (start_addr_uffd_map s)(start := None) \<and>
    uffd_start_addr_map s' = (uffd_start_addr_map s)(uffd := None)"
  using cli.pb.unregister_step [of e k uffd start c s] assms by (auto simp: region_rel_def)

theorem unregister_flushes_region_witness:
  "\<exists>s s' c. client_region demo_kernel demo_env 5 1048576 c s \<and> obo_dirty c 0 \<and>
     uffdman_unregister_region 4096 1048576 s = Inr s' \<and>
     client_remote server_abs (world s') 1048576 = Some (backing (obo_evict c))"
proof -
  obtain s where s: "client_ready (server_handle demo_kernel)
      (\<lambda>s. kernel_ok demo_kernel \<and> server_inv s) server_abs demo_env s"
    "net (world s) = Some (new_server Map.empty)"
    "alloc_calls_ok 1048576 (demo_calls 5 9) (unat (2 :: u32)) s" "start_addr_uffd_map s = Map.empty"
    by (rule demo_ready)
  have "unat (2 :: u32) * 4096 < 2 ^ 32" "0 < handles_left (new_server Map.empty)" by simp_all
  from cli.alloc_region [OF s(1-3) this demo_alloc_answer demo_alloc_no_error]
  obtain s2 pg where s2: "s2 = after_alloc 1048576 (demo_calls 5 9) 2 0 (Some demo_server) pg s"
    "client_region demo_kernel demo_env 5 1048576
      \<lparr>backing = replicate 2 zero_page, cached = None, last_page = pg\<rparr> s2"
    (is "region_rel _ _ _ _ _ ?c _")
    by (auto simp del: kernel_ok_slot_kernel)
  have m2: "start_addr_uffd_map s2 1048576 = Some 5"
    using s(4) by (simp add: s2(1) after_alloc_def map_insert_def)
  have "\<forall>ac \<in> set [Store 0 7]. in_region (length (backing ?c) * 4096) ac" by simp
  from cli.pb.run_refines [OF s2(2) demo_env_facts(3) this]
  obtain s3 where s3: "client_region demo_kernel demo_env 5 1048576 (obo_store 0 7 ?c) s3"
    "elsewhere_same (client_remote server_abs) 5 1048576 2 s2 s3"
    by (auto simp del: kernel_ok_slot_kernel)
  have "start_addr_uffd_map s3 1048576 = Some 5" using s3(2) m2 by (simp add: elsewhere_same_def)
  from unregister_flushes_region [OF s3(1) this]
  have "\<exists>s'. uffdman_unregister_region 4096 1048576 s3 = Inr s' \<and>
      client_remote server_abs (world s') 1048576 = Some (backing (obo_evict (obo_store 0 7 ?c)))"
    by auto
  moreover have "obo_dirty (obo_store 0 7 ?c) 0" using obo_store_dirty [of ?c 0 7] by simp
  ultimately show ?thesis using s3(1) by blast
qed

text \<open>
  C25. Explicit access. \<^verbatim>\<open>rmp_write\<close> of a page buffer to a page of a handle the server knows,
  followed by \<^verbatim>\<open>rmp_read\<close> of the same page into any other buffer, fills that buffer with the page
  written.
\<close>

theorem rmp_write_read_roundtrip:
  assumes "server_client_inv k e c" "net c = Some srv" "server_abs srv h = Some pages"
    "unat (ucast off :: u32) < length pages" "length b = 4096" "length b' = 4096"
  shows "\<exists>c1 c2. rmp_write e h off (Buf b) c = Inr (Buf b, c1) \<and>
    rmp_read e h off (Buf b') c1 = Inr (Buf b, c2)"
proof -
  obtain srv1 where w: "rmp_write_page e h off (Buf b) c = Inr (Buf b, c\<lparr>net := Some srv1\<rparr>)"
    "server_abs srv1 = (server_abs srv)(h \<mapsto> pages[unat (ucast off :: u32) := b])"
    "server_client_inv k e (c\<lparr>net := Some srv1\<rparr>)"
    using cli.client_write_page [OF assms(1-5)] by blast
  have "server_abs srv1 h = Some (pages[unat (ucast off :: u32) := b])" using w(2) by simp
  from cli.client_read_page [OF w(3) _ this _ assms(6), of off]
  show ?thesis using w(1) assms(4) by (auto simp: rmp_write_def rmp_read_def)
qed

theorem rmp_write_read_roundtrip_witness:
  "\<exists>c c1 c2. rmp_write demo_env 0 1 (Buf (replicate 4096 5)) c = Inr (Buf (replicate 4096 5), c1) \<and>
     rmp_read demo_env 0 1 (Buf zero_page) c1 = Inr (Buf (replicate 4096 5), c2)"
proof -
  let ?c = "\<lparr>server_config = demo_config, socketfd = 3, connected = True,
      addr_hndl_map = Some Map.empty, addr_npages_map = Some Map.empty, net = Some demo_server\<rparr>"
  have "server_client_inv demo_kernel demo_env ?c"
    by (simp add: client_inv_def)
  from rmp_write_read_roundtrip [OF this, of demo_server 0 "[zero_page, zero_page]" 1
      "replicate 4096 5" zero_page]
  show ?thesis by auto
qed

text \<open>
  C30. The handler thread. Whatever read and write faults in a region the kernel reports, in
  whatever order and however many, the handler thread serves them all and goes back to polling;
  the region ends as the off-by-one machine does after the same faults.
\<close>

theorem handler_thread_serves_faults:
  assumes "client_region k e uffd start c s" "env_ok (server_handle k) e"
    "\<forall>(i, wr) \<in> set fs. i < length (backing c)"
  shows "\<exists>s'. fault_handler_thread (os e) uffd (map (fault_event start) fs) s = Inr (Polling, s') \<and>
    cache_rel uffd start (obo_faults fs c) s' \<and>
    client_remote server_abs (world s') start = Some (backing (obo_faults fs c))"
proof -
  have R: "base_rel (rmp_pagefault_resovler e) (server_client_inv k e) (client_remote server_abs)
      uffd start c s" "cache_rel uffd start c s" "scratch_page s \<noteq> No_page"
    using assms(1) by (simp_all add: region_rel_def base_rel_def)
  from cli.pb.fault_loop_step [OF R(1,2) env_os [OF assms(2)] assms(3)]
  show ?thesis using R(3) by (auto simp: fault_handler_thread_def base_rel_def)
qed

theorem handler_thread_serves_faults_witness:
  "\<exists>s c s'. client_region demo_kernel demo_env 5 1048576 c s \<and>
     fault_handler_thread (os demo_env) 5
       (map (fault_event 1048576) [(0, True), (1, False), (0, False)]) s = Inr (Polling, s')"
proof -
  obtain s pg where s: "client_region demo_kernel demo_env 5 1048576
      \<lparr>backing = replicate 2 zero_page, cached = None, last_page = pg\<rparr> s"
    using demo_program_region by blast
  have "\<exists>s'. fault_handler_thread (os demo_env) 5
      (map (fault_event 1048576) [(0, True), (1, False), (0, False)]) s = Inr (Polling, s')"
    using handler_thread_serves_faults [OF s demo_env_facts(1),
        of "[(0, True), (1, False), (0, False)]"] by auto
  then show ?thesis using s by blast
qed

end
