(* ===== verification/Float_Ints.thy ===== *)
theory Float_Ints
  imports RMP_Types
begin

text \<open>
  Natural numbers as floating-point numbers: the rounding of a conversion to \<^verbatim>\<open>float\<close>, which the
  preload library applies to the size of a request, and the bytes of a \<^verbatim>\<open>double\<close> that holds a
  natural number, which the example client keeps in remote memory.
\<close>

subsection \<open>Conversion to float\<close>

text \<open>
  \<^verbatim>\<open>(float)size\<close>: the nearest number with a significand of 24 bits, ties to the even one. The
  page size is a power of two, so it is a float, the quotient by it is exact, and \<^verbatim>\<open>ceil\<close> of the
  quotient is the quotient rounded up.
\<close>

fun bit_length :: "nat \<Rightarrow> nat" where
  "bit_length n = (if n = 0 then 0 else Suc (bit_length (n div 2)))"

declare bit_length.simps [simp del]

definition float_of_size :: "nat \<Rightarrow> nat" where
  "float_of_size n =
     (let e = bit_length n - 24; q = n div 2 ^ e; r = n mod 2 ^ e
      in if e = 0 then n
         else if 2 * r > 2 ^ e \<or> 2 * r = 2 ^ e \<and> odd q then Suc q * 2 ^ e else q * 2 ^ e)"

lemma bit_length_le: "n < 2 ^ k \<Longrightarrow> bit_length n \<le> k"
proof (induction k arbitrary: n)
  case (Suc k)
  then show ?case by (cases "n = 0") (simp_all add: bit_length.simps [of n] bit_length.simps [of 0] less_mult_imp_div_less)
qed (simp add: bit_length.simps)

lemma float_exact: "n < 2 ^ 24 \<Longrightarrow> float_of_size n = n"
  using bit_length_le [of n 24] by (simp add: float_of_size_def)

lemma bit_length_eq: "2 ^ k \<le> n \<Longrightarrow> n < 2 ^ Suc k \<Longrightarrow> bit_length n = Suc k"
proof (induction k arbitrary: n)
  case 0
  then have "n = 1" by simp
  then show ?case by (simp add: bit_length.simps [of "Suc 0"] bit_length.simps [of 0])
next
  case (Suc k)
  have "2 ^ k \<le> n div 2" using Suc.prems(1) by simp
  moreover have "n div 2 < 2 ^ Suc k" using Suc.prems(2) by (intro less_mult_imp_div_less) simp
  ultimately have "bit_length (n div 2) = Suc k" by (rule Suc.IH)
  moreover have "0 < n" using Suc.prems(1) by (meson less_le_trans zero_less_numeral zero_less_power)
  ultimately show ?case by (simp add: bit_length.simps [of n])
qed

lemma float_power_plus_one:
  assumes "24 \<le> k"
  shows "float_of_size (2 ^ k + 1) = 2 ^ k"
proof -
  define e where "e = k - 23"
  have e: "1 \<le> e" "k = 23 + e" using assms by (simp_all add: e_def)
  have "(1 :: nat) < 2 ^ k" using assms by (intro one_less_power) simp_all
  then have "bit_length (2 ^ k + 1) = Suc k" by (intro bit_length_eq) simp_all
  then have b: "bit_length (2 ^ k + 1) - 24 = e" by (simp add: e_def)
  have pw: "(2 :: nat) ^ k = 2 ^ 23 * 2 ^ e" by (simp add: e(2) power_add)
  have one: "(1 :: nat) < 2 ^ e" using e(1) by (intro one_less_power) simp_all
  have "(1 + 2 ^ 23 * 2 ^ e) div 2 ^ e = (2 :: nat) ^ 23 + 1 div 2 ^ e"
    "(1 + 2 ^ 23 * 2 ^ e) mod 2 ^ e = (1 :: nat) mod 2 ^ e"
    by (rule div_mult_self1, simp, rule mod_mult_self1)
  then have q: "(2 ^ k + 1) div 2 ^ e = (2 :: nat) ^ 23" and r: "(2 ^ k + 1) mod 2 ^ e = (1 :: nat)"
    using one by (simp_all only: pw add.commute div_less mod_less)
  have "\<not> 2 * (1 :: nat) > 2 ^ e" using one by simp
  then show ?thesis using e(1) unfolding float_of_size_def b q r Let_def by (simp add: pw)
qed

subsection \<open>Doubles that hold natural numbers\<close>

text \<open>
  The representation of a \<^verbatim>\<open>double\<close> with a natural value below 2^53: sign 0, eleven bits of exponent
  biased by 1023, fifty-two bits of fraction, in little-endian order. \<open>double_val\<close> is the value of a
  representation with an integral value in that range.
\<close>

definition double_bits :: "nat \<Rightarrow> nat" where
  "double_bits n =
     (if n = 0 then 0
      else let e = bit_length n - 1 in (1023 + e) * 2 ^ 52 + (n - 2 ^ e) * 2 ^ (52 - e))"

definition double_bytes :: "nat \<Rightarrow> byte list" where
  "double_bytes n = le_bytes 8 (of_nat (double_bits n) :: ul)"

definition double_val :: "byte list \<Rightarrow> nat" where
  "double_val bs =
     (let w = unat (le_word bs :: ul); e = w div 2 ^ 52 - 1023
      in if w = 0 then 0 else (2 ^ 52 + w mod 2 ^ 52) div 2 ^ (52 - e))"

lemma length_double_bytes [simp]: "length (double_bytes n) = 8"
  by (simp add: double_bytes_def)

lemma bit_length_bounds:
  assumes "0 < n"
  shows "2 ^ (bit_length n - 1) \<le> n \<and> n < 2 ^ bit_length n \<and> 0 < bit_length n"
  using assms
proof (induction n rule: bit_length.induct)
  case (1 n)
  have b: "bit_length n = Suc (bit_length (n div 2))" using "1.prems" by (simp add: bit_length.simps [of n])
  show ?case
  proof (cases "n div 2 = 0")
    case True
    then have "n = 1" using "1.prems" by simp
    then show ?thesis by (simp add: b) (simp add: bit_length.simps)
  next
    case False
    then have "2 ^ (bit_length (n div 2) - 1) \<le> n div 2" "n div 2 < 2 ^ bit_length (n div 2)"
      "0 < bit_length (n div 2)"
      using "1.IH" "1.prems" by simp_all
    then show ?thesis unfolding b by (cases "bit_length (n div 2)") auto
  qed
qed

lemma double_parts:
  assumes "0 < n" "n < 2 ^ 53"
  defines "e \<equiv> bit_length n - 1"
  shows "e \<le> 52" "2 ^ e \<le> n" "(n - 2 ^ e) * 2 ^ (52 - e) < 2 ^ 52"
proof -
  have b: "2 ^ e \<le> n" "n < 2 ^ Suc e"
    using bit_length_bounds [OF assms(1)] by (simp_all add: e_def)
  have "(2 :: nat) ^ e < 2 ^ 53" using b(1) assms(2) by (rule le_less_trans)
  then have "e < 53" by (simp only: power_strict_increasing_iff [of 2])
  then show e: "e \<le> 52" by simp
  show "2 ^ e \<le> n" by (rule b(1))
  have "n - 2 ^ e < 2 ^ e" using b(2) by simp
  then have "(n - 2 ^ e) * 2 ^ (52 - e) < 2 ^ e * 2 ^ (52 - e)" by simp
  also have "\<dots> = 2 ^ 52" using e by (simp flip: power_add)
  finally show "(n - 2 ^ e) * 2 ^ (52 - e) < 2 ^ 52" .
qed

lemma quot_rem:
  assumes "r < (m :: nat)"
  shows "(q * m + r) div m = q" "(q * m + r) mod m = r"
  using assms by simp_all

lemma double_val_bytes:
  assumes "n < 2 ^ 53"
  shows "double_val (double_bytes n) = n"
proof (cases "n = 0")
  case True
  then show ?thesis by (simp add: double_val_def double_bytes_def double_bits_def)
next
  case False
  let ?e = "bit_length n - 1"
  let ?m = "(n - 2 ^ ?e) * 2 ^ (52 - ?e)"
  have P: "?e \<le> 52" "2 ^ ?e \<le> n" "?m < 2 ^ 52" using double_parts [of n] False assms by simp_all
  have bits: "double_bits n = (1023 + ?e) * 2 ^ 52 + ?m" using False by (simp add: double_bits_def Let_def)
  have "double_bits n < (1023 + ?e + 1) * 2 ^ 52" using P(3) unfolding bits by simp
  also have "\<dots> \<le> 1076 * 2 ^ 52" using P(1) by simp
  also have "\<dots> < 2 ^ 64" by simp
  finally have w: "unat (of_nat (double_bits n) :: ul) = double_bits n" by (rule unat_of_nat_ul)
  have d: "double_bits n div 2 ^ 52 = 1023 + ?e" "double_bits n mod 2 ^ 52 = ?m"
    unfolding bits by (simp_all only: quot_rem [OF P(3)])
  have nz: "double_bits n \<noteq> 0" unfolding bits by simp
  have "2 ^ 52 + ?m = 2 ^ ?e * 2 ^ (52 - ?e) + ?m" using P(1) by (simp flip: power_add)
  also have "\<dots> = n * 2 ^ (52 - ?e)" using P(2) by (simp flip: distrib_right)
  finally have "(2 ^ 52 + ?m) div 2 ^ (52 - ?e) = n" by simp
  then show ?thesis
    unfolding double_val_def double_bytes_def le_word_ul w d Let_def using nz by simp
qed

end
