(* ===== verification/Preloadlib.thy ===== *)
theory Preloadlib
  imports Remote_Props Float_Ints
begin

text \<open>
  The preload library, \<^verbatim>\<open>preloadlib/preloadlib.cpp\<close>: a replacement of \<^verbatim>\<open>malloc\<close> and \<^verbatim>\<open>free\<close> that
  takes the memory of the main thread from the page server. The record \<open>preload\<close> holds its
  globals, the mutex it shares with the userfaultfd manager, and the client process. The
  allocator of the C library that \<^verbatim>\<open>dlsym\<close> finds is a parameter over its own heap \<open>'h\<close>. Of the
  allocations the library itself makes while it serves a request, the object of \<^verbatim>\<open>rmp::Client\<close> is
  one of the model; the nodes of the maps in the client library and the manager are not.
\<close>

subsection \<open>State\<close>

record ('h, 'n) preload =
  hooked :: bool
  do_local_allocation :: bool
  rmp_fd :: int
  mainthread_id :: ul
  fault_handler_cr :: bool
  heap :: 'h
  proc :: "'n client_proc"

text \<open>
  What the surroundings decide: the calling thread, whether \<^verbatim>\<open>dlsym\<close> finds the four functions, the
  allocator it finds, the results of \<^verbatim>\<open>socket\<close> and \<^verbatim>\<open>connect\<close>, and of the client's calls in
  \<^verbatim>\<open>rmp_alloc\<close>.
\<close>

record ('h, 'n) preload_env =
  cenv :: "'n client_env"
  self :: ul
  dlsym_ok :: bool
  stdlib_malloc :: "ul \<Rightarrow> 'h \<Rightarrow> ul \<times> 'h"
  sock_rc :: int
  conn_rc :: int
  map_rc :: "ul option"
  calls :: reg_calls

text \<open>
  \<^verbatim>\<open>lock_guard\<close> waits for the mutex; a thread that holds it already waits for ever. \<^verbatim>\<open>unlock\<close>
  frees it, whoever holds it.
\<close>

definition lock_cr :: "('h, 'n) preload \<Rightarrow> ('h, 'n) preload outcome" where
  "lock_cr s = (if fault_handler_cr s then Inl Hang else Inr (s\<lparr>fault_handler_cr := True\<rparr>))"

definition unlock_cr :: "('h, 'n) preload \<Rightarrow> ('h, 'n) preload" where
  "unlock_cr s = s\<lparr>fault_handler_cr := False\<rparr>"

subsection \<open>Connection\<close>

definition preload_config :: rmp_config where
  "preload_config = \<lparr>cfg_addr = ''127.0.0.1'', cfg_port = 6768\<rparr>"

text \<open>
  \<^verbatim>\<open>local_malloc\<close> comes before its callers here. \<^verbatim>\<open>new rmp::Client(conf)\<close> calls \<^verbatim>\<open>malloc\<close> for the 72 bytes
  of the object, which is a local allocation since \<^verbatim>\<open>do_local_allocation\<close> is set, and throws when it
  returns NULL. The object of an earlier attempt to connect is not deleted.
\<close>

definition preloadlib_init :: "('h, 'n) preload_env \<Rightarrow> ('h, 'n) preload \<Rightarrow> ('h, 'n) preload outcome" where
  "preloadlib_init e s = (if dlsym_ok e then Inr (s\<lparr>hooked := True\<rparr>) else Inl Exited)"

definition local_malloc :: "('h, 'n) preload_env \<Rightarrow> ul \<Rightarrow> ('h, 'n) preload \<Rightarrow> (ul \<times> ('h, 'n) preload) outcome" where
  "local_malloc e n s =
     (if \<not> hooked s then ebind (preloadlib_init e s) (\<lambda>s1. Inr (0, s1))
      else let (r, h') = stdlib_malloc e n (heap s) in Inr (r, s\<lparr>heap := h'\<rparr>))"

definition client_bytes :: ul where
  "client_bytes = 72"

definition rmp_conn_init :: "('h, 'n) preload_env \<Rightarrow> ('h, 'n) preload \<Rightarrow> ('h, 'n) preload outcome" where
  "rmp_conn_init e s =
     ebind (lock_cr s)
       (\<lambda>s1. let s2 = s1\<lparr>do_local_allocation := True, mainthread_id := self e\<rparr>
             in ebind (local_malloc e client_bytes s2)
                  (\<lambda>(obj, s3).
                     if obj = 0 then Inl Bad_alloc
                     else let (fd, p) = rmp_init (cenv e) (sock_rc e) (conn_rc e)
                                          (client_new preload_config (proc s3))
                          in Inr (unlock_cr (s3\<lparr>rmp_fd := fd, proc := p, do_local_allocation := False\<rparr>))))"

definition check_conn :: "('h, 'n) preload_env \<Rightarrow> ('h, 'n) preload \<Rightarrow> (bool \<times> ('h, 'n) preload) outcome" where
  "check_conn e s =
     ebind (if \<not> hooked s then preloadlib_init e s else Inr s)
       (\<lambda>s1. ebind (if rmp_fd s1 = - 1 then rmp_conn_init e s1 else Inr s1)
          (\<lambda>s2. Inr (rmp_fd s2 \<noteq> - 1, s2)))"

subsection \<open>Allocation\<close>

definition preload_free :: "ul \<Rightarrow> ('h, 'n) preload \<Rightarrow> ('h, 'n) preload" where
  "preload_free ptr s = s"

definition malloc_pages :: "nat \<Rightarrow> nat \<Rightarrow> nat" where
  "malloc_pages pg n = (float_of_size n + pg - 1) div pg"

definition preload_malloc ::
  "('h, 'n) preload_env \<Rightarrow> ul \<Rightarrow> ('h, 'n) preload \<Rightarrow> (ul \<times> ('h, 'n) preload) outcome" where
  "preload_malloc e n s =
     (if do_local_allocation s then local_malloc e n s
      else ebind (check_conn e s)
        (\<lambda>(ok, s1).
           if \<not> ok then Inr (0, s1)
           else if self e \<noteq> mainthread_id s1 then local_malloc e n s1
           else ebind (lock_cr s1)
             (\<lambda>s2. let s3 = s2\<lparr>do_local_allocation := True\<rparr>;
                       np = malloc_pages (unat (page_size (cenv e))) (unat n)
                   in ebind (rmp_alloc (cenv e) (map_rc e) (calls e) (of_nat np) (proc s3))
                        (\<lambda>(result, p). let s4 = unlock_cr (s3\<lparr>proc := p\<rparr>)
                           in Inr (result, unlock_cr (s4\<lparr>do_local_allocation := False\<rparr>))))))"

subsection \<open>The size of an allocation\<close>

lemma pages_cover:
  assumes "n < 2 ^ 24"
  shows "n \<le> malloc_pages 4096 n * 4096" "malloc_pages 4096 n * 4096 < n + 4096"
proof -
  have eq: "malloc_pages 4096 n = (n + 4095) div 4096"
    by (simp add: malloc_pages_def float_exact [OF assms])
  have "n + 4095 = (n + 4095) div 4096 * 4096 + (n + 4095) mod 4096" "(n + 4095) mod 4096 < 4096"
    by simp_all
  then show "n \<le> malloc_pages 4096 n * 4096" "malloc_pages 4096 n * 4096 < n + 4096"
    unfolding eq by linarith+
qed

text \<open>
  C31. Below 16 MiB the number of pages \<^verbatim>\<open>malloc\<close> asks for is exactly what the request needs: the
  pages hold the request, and one page less would not.
\<close>

theorem malloc_pages_exact:
  assumes "n < 2 ^ 24"
  shows "n \<le> malloc_pages 4096 n * 4096 \<and> malloc_pages 4096 n * 4096 < n + 4096"
  using pages_cover [OF assms] by simp

theorem malloc_pages_exact_witness:
  "malloc_pages 4096 4097 = 2 \<and> (4097 :: nat) \<le> malloc_pages 4096 4097 * 4096 \<and>
   malloc_pages 4096 4097 * 4096 < 4097 + 4096"
  using malloc_pages_exact [of 4097] by (simp add: malloc_pages_def float_exact)

text \<open>
  C32. From 16 MiB on the conversion to \<^verbatim>\<open>float\<close> loses low bits: for every power of two of at least
  16 MiB, a request of one byte more gets the pages of the power of two itself, one byte too few. Nor
  does the 32-bit argument of \<^verbatim>\<open>rmp_alloc\<close>, to which the count is cut, hold enough pages.
\<close>

theorem malloc_pages_short:
  assumes "24 \<le> k"
  shows "malloc_pages 4096 (2 ^ k + 1) * 4096 < 2 ^ k + 1 \<and>
    unat (of_nat (malloc_pages 4096 (2 ^ k + 1)) :: u32) * 4096 < 2 ^ k + 1"
proof -
  have "(2 :: nat) ^ k = 2 ^ (k - 12) * 4096"
    using assms power_add [of "2 :: nat" "k - 12" 12] by simp
  then have n: "malloc_pages 4096 (2 ^ k + 1) * 4096 < 2 ^ k + 1"
    using float_power_plus_one [OF assms] by (simp add: malloc_pages_def)
  have "unat (of_nat (malloc_pages 4096 (2 ^ k + 1)) :: u32) \<le> malloc_pages 4096 (2 ^ k + 1)"
    by (simp add: unat_of_nat)
  then show ?thesis using n by (meson le_less_trans mult_le_mono1)
qed

theorem malloc_pages_short_witness:
  "malloc_pages 4096 (2 ^ 24 + 1) * 4096 < 2 ^ 24 + 1 \<and>
   unat (of_nat (malloc_pages 4096 (2 ^ 24 + 1)) :: u32) * 4096 < 2 ^ 24 + 1"
  by (rule malloc_pages_short) simp

subsection \<open>Allocation through the library\<close>

definition preload_start :: "'h \<Rightarrow> rmp_config \<Rightarrow> 'n \<Rightarrow> ('h, 'n) preload" where
  "preload_start h cfg n =
     \<lparr>hooked = False, do_local_allocation = False, rmp_fd = - 1, mainthread_id = 0,
      fault_handler_cr = False, heap = h, proc = client_start cfg n\<rparr>"

lemma client_new_start [simp]: "client_new cfg (client_start cfg' n) = client_start cfg n"
  by (simp add: client_new_def client_start_def)

lemma first_malloc:
  assumes "dlsym_ok e" "stdlib_malloc e client_bytes h = (obj, h')" "obj \<noteq> 0"
    "rmp_init (cenv e) (sock_rc e) (conn_rc e) (client_start preload_config n) = (0, p)"
    "rmp_alloc (cenv e) (map_rc e) (calls e)
       (of_nat (malloc_pages (unat (page_size (cenv e))) (unat sz))) p = Inr (r, p')"
  shows "preload_malloc e sz (preload_start h cfg n) =
    Inr (r, \<lparr>hooked = True, do_local_allocation = False, rmp_fd = 0, mainthread_id = self e,
      fault_handler_cr = False, heap = h', proc = p'\<rparr>)"
  using assms
  by (simp add: preload_malloc_def local_malloc_def check_conn_def preloadlib_init_def rmp_conn_init_def lock_cr_def
      unlock_cr_def preload_start_def Let_def)

lemma malloc_pages_small:
  assumes "unat (sz :: ul) < 2 ^ 24"
  shows "unat (of_nat (malloc_pages 4096 (unat sz)) :: u32) = malloc_pages 4096 (unat sz)"
    "malloc_pages 4096 (unat sz) * 4096 < 2 ^ 32"
proof -
  have "malloc_pages 4096 (unat sz) = (unat sz + 4095) div 4096"
    by (simp add: malloc_pages_def float_exact [OF assms])
  also have "\<dots> \<le> 4096" using assms by simp
  finally show "unat (of_nat (malloc_pages 4096 (unat sz)) :: u32) = malloc_pages 4096 (unat sz)"
    "malloc_pages 4096 (unat sz) * 4096 < 2 ^ 32"
    by (simp_all add: unat_of_nat)
qed

text \<open>
  C33. The first \<^verbatim>\<open>malloc\<close> of the main thread connects to the server and returns the start of a
  region of remote memory of zero pages that holds the request (below 16 MiB) and wastes less than
  a page; it leaves the mutex free and local allocation off.
\<close>

theorem first_malloc_region:
  assumes "kernel_ok k" "server_inv srv" "0 < handles_left srv" "env_ok (server_handle k) (cenv e)"
    "scratch_ok (os (cenv e))" "0 \<le> sock_rc e" "0 \<le> conn_rc e" "dlsym_ok e" "map_rc e = Some a"
    "unat sz < 2 ^ 24" "n = malloc_pages 4096 (unat sz)" "first_calls_ok a (calls e) n"
    "server_handle k (alloc_request (cenv e) (of_nat n)) srv = Inr (p', srv')" "error p' \<noteq> ALLOC_FAILED"
    "fst (stdlib_malloc e client_bytes h) \<noteq> 0"
  shows "\<exists>s1 s2 pg. preload_malloc e sz (preload_start h cfg (Some srv)) = Inr (a, s1) \<and>
    \<not> fault_handler_cr s1 \<and> \<not> do_local_allocation s1 \<and>
    fault_handler_thread (os (cenv e)) (userfaultfd_rc (calls e)) [] (proc s1) = Inr (Polling, s2) \<and>
    client_region k (cenv e) (userfaultfd_rc (calls e)) a
      \<lparr>backing = replicate n zero_page, cached = None, last_page = pg\<rparr> s2 \<and>
    unat sz \<le> n * 4096 \<and> n * 4096 < unat sz + 4096"
proof -
  have n: "unat (of_nat n :: u32) = n" "n * 4096 < 2 ^ 32"
    using malloc_pages_small [OF assms(10)] assms(11) by simp_all
  have pg: "page_size (cenv e) = 4096"
    using assms(4) by (simp add: env_ok_def uffd_os_ok_def page_size_def)
  obtain s0 where s0: "rmp_init (cenv e) (sock_rc e) (conn_rc e) (client_start preload_config (Some srv)) = (0, s0)"
    "client_ready (server_handle k) (\<lambda>s. kernel_ok k \<and> server_inv s) server_abs (cenv e) s0"
    "net (world s0) = Some srv" "alloc_calls_ok a (calls e) n s0"
    using server_ready [OF assms(1,2,4-7,12)] by blast
  obtain s1 s2 pg' where s1: "rmp_alloc (cenv e) (Some a) (calls e) (of_nat n) s0 = Inr (a, s1)"
    "fault_handler_thread (os (cenv e)) (userfaultfd_rc (calls e)) [] s1 = Inr (Polling, s2)"
    "client_region k (cenv e) (userfaultfd_rc (calls e)) a
      \<lparr>backing = replicate n zero_page, cached = None, last_page = pg'\<rparr> s2"
    using cli.alloc_region [OF s0(2,3) _ _ assms(3,13,14), of a "calls e"] s0(4) n by auto
  obtain obj h' where h': "stdlib_malloc e client_bytes h = (obj, h')" by fastforce
  then have "obj \<noteq> 0" using assms(15) by simp
  then have "preload_malloc e sz (preload_start h cfg (Some srv)) =
    Inr (a, \<lparr>hooked = True, do_local_allocation = False, rmp_fd = 0, mainthread_id = self e,
      fault_handler_cr = False, heap = h', proc = s1\<rparr>)"
    using s1(1) assms(9,11) pg by (intro first_malloc [OF assms(8) h' _ s0(1)]) simp_all
  then show ?thesis
    using s1(2,3) pages_cover [OF assms(10)] assms(11) by auto
qed

definition demo_preload_env :: "(nat, server_proc option) preload_env" where
  "demo_preload_env =
     \<lparr>cenv = demo_env, self = 1, dlsym_ok = True, stdlib_malloc = (\<lambda>n h. (of_nat h, h + unat n)),
      sock_rc = 3, conn_rc = 0, map_rc = Some 1048576, calls = demo_calls 5 9\<rparr>"

lemma demo_preload_sel [simp]:
  "cenv demo_preload_env = demo_env" "dlsym_ok demo_preload_env" "sock_rc demo_preload_env = 3"
  "conn_rc demo_preload_env = 0" "map_rc demo_preload_env = Some 1048576"
  "calls demo_preload_env = demo_calls 5 9"
  by (simp_all add: demo_preload_env_def)

theorem first_malloc_region_witness:
  "\<exists>s1 s2 pg. preload_malloc demo_preload_env 5000
       (preload_start 8192 demo_config (Some (new_server Map.empty))) = Inr (1048576, s1) \<and>
     client_region demo_kernel demo_env 5 1048576
       \<lparr>backing = replicate 2 zero_page, cached = None, last_page = pg\<rparr> s2"
proof -
  have n: "(2 :: nat) = malloc_pages 4096 (unat (5000 :: ul))"
    by (simp add: malloc_pages_def float_exact)
  have ans: "server_handle demo_kernel (alloc_request (cenv demo_preload_env) (of_nat 2)) (new_server Map.empty) =
      Inr ((alloc_request demo_env 2)\<lparr>hndl := 0\<rparr>, demo_server)"
    using demo_alloc_answer by simp
  have small: "unat (5000 :: ul) < 2 ^ 24" by simp
  have e: "env_ok (server_handle demo_kernel) (cenv demo_preload_env)"
    "scratch_ok (os (cenv demo_preload_env))" "first_calls_ok 1048576 (calls demo_preload_env) 2"
    using demo_first_calls by simp_all
  from first_malloc_region [OF kernel_ok_slot_kernel new_server_inv _ e(1,2) _ _ _ _ small n e(3) ans
      demo_alloc_no_error, of 8192 demo_config]
  have "\<exists>s1 s2 pg. preload_malloc demo_preload_env 5000
       (preload_start 8192 demo_config (Some (new_server Map.empty))) = Inr (1048576, s1) \<and>
     client_region demo_kernel demo_env (userfaultfd_rc (calls demo_preload_env)) 1048576
       \<lparr>backing = replicate 2 zero_page, cached = None, last_page = pg\<rparr> s2"
    by (simp del: kernel_ok_slot_kernel add: demo_preload_env_def) blast
  then show ?thesis by (simp del: kernel_ok_slot_kernel)
qed

text \<open>
  C34. Without a server \<^verbatim>\<open>malloc\<close> has no fallback: while the connection is refused, every call of
  \<^verbatim>\<open>malloc\<close>, from any thread, returns NULL. It leaves the library ready to try to connect again at the
  next call, with the mutex free, and takes the 72 bytes of another \<^verbatim>\<open>rmp::Client\<close> from the C
  library's heap, which nothing gives back.
\<close>

theorem malloc_without_server:
  assumes "hooked s \<or> dlsym_ok e" "rmp_fd s = - 1" "\<not> do_local_allocation s" "\<not> fault_handler_cr s"
    "conn_rc e < 0" "fst (stdlib_malloc e 72 (heap s)) \<noteq> 0"
  shows "\<exists>s'. preload_malloc e sz s = Inr (0, s') \<and> hooked s' \<and> rmp_fd s' = - 1 \<and>
    \<not> do_local_allocation s' \<and> \<not> fault_handler_cr s' \<and> heap s' = snd (stdlib_malloc e 72 (heap s)) \<and>
    net (world (proc s')) = net (world (proc s))"
  using assms
  by (cases "stdlib_malloc e 72 (heap s)")
    (auto simp: preload_malloc_def check_conn_def preloadlib_init_def rmp_conn_init_def lock_cr_def
      unlock_cr_def local_malloc_def client_bytes_def rmp_init_def client_new_def Let_def)

theorem malloc_without_server_witness:
  "\<exists>s'. preload_malloc (demo_preload_env\<lparr>conn_rc := - 1\<rparr>) 64 (preload_start 8192 demo_config None) =
     Inr (0, s') \<and> heap s' = 8264 \<and> rmp_fd s' = - 1"
  using malloc_without_server
    [of "preload_start 8192 demo_config None" "demo_preload_env\<lparr>conn_rc := - 1\<rparr>" 64]
  by (auto simp: preload_start_def demo_preload_env_def)

end
