(* ===== verification/Client_Example.thy ===== *)
theory Client_Example
  imports Remote_Props Float_Ints
begin

text \<open>
  The example program \<^verbatim>\<open>client/client.cpp\<close>: it connects to the server named on its command line,
  allocates three regions of eleven pages, and in each of them writes the numbers 0, 1, 2, ... as
  doubles to the first ten pages, prints them and adds them up. A double is read or written as its
  eight bytes; the numbers and their sums are natural numbers below 2^53, on which the arithmetic
  of doubles is exact.
\<close>

subsection \<open>The program\<close>

definition is_space :: "char \<Rightarrow> bool" where
  "is_space c \<longleftrightarrow> (let n = (of_char c :: nat) in n = 32 \<or> 9 \<le> n \<and> n \<le> 13)"

definition is_digit :: "char \<Rightarrow> bool" where
  "is_digit c \<longleftrightarrow> (let n = (of_char c :: nat) in 48 \<le> n \<and> n \<le> 57)"

definition atoi :: "string \<Rightarrow> int" where
  "atoi s =
     (let t = dropWhile is_space s;
          (sg, u) = (case t of
             [] \<Rightarrow> (1, [])
           | c # cs \<Rightarrow> if c = CHR ''-'' then (- 1, cs) else if c = CHR ''+'' then (1, cs) else (1, t))
      in sg * foldl (\<lambda>a c. 10 * a + (int (of_char c) - 48)) 0 (takeWhile is_digit u))"

text \<open>One allocation and the start of its handler thread, if one is created.\<close>

definition thread_started :: "ul option \<Rightarrow> reg_calls \<Rightarrow> 'n client_proc \<Rightarrow> bool" where
  "thread_started m calls s \<longleftrightarrow>
     m \<noteq> None \<and> connected (world s) \<and> userfaultfd_rc calls \<noteq> - 1 \<and> api_rc calls \<noteq> - 1 \<and>
     register_rc calls \<noteq> - 1 \<and> thread_rc calls = 0"

definition example_alloc ::
  "'n client_env \<Rightarrow> ul option \<times> reg_calls \<Rightarrow> 'n client_proc \<Rightarrow> (ul \<times> 'n client_proc) outcome" where
  "example_alloc e r s =
     ebind (rmp_alloc e (fst r) (snd r) 11 s)
       (\<lambda>(arr, s1).
          if thread_started (fst r) (snd r) s
          then ebind (fault_handler_thread (os e) (userfaultfd_rc (snd r)) [] s1)
                 (\<lambda>(_, s2). Inr (arr, s2))
          else Inr (arr, s1))"

definition store_doubles :: "nat \<Rightarrow> nat access list" where
  "store_doubles n = concat (map (\<lambda>i. fill (8 * i) (double_bytes i)) [0..<n])"

definition load_double :: "uffd_os \<Rightarrow> ul \<Rightarrow> nat \<Rightarrow> 'w uffdman \<Rightarrow> (nat \<times> 'w uffdman) outcome" where
  "load_double kos arr i s =
     ebind (app_run kos (at_region arr (map Load [8 * i..<8 * i + 8])) s)
       (\<lambda>(bs, s'). Inr (double_val bs, s'))"

text \<open>Each round of the reading loop loads the element twice, to print it and to add it.\<close>

fun read_loop ::
  "uffd_os \<Rightarrow> ul \<Rightarrow> nat list \<Rightarrow> nat \<Rightarrow> 'w uffdman \<Rightarrow> (nat list \<times> nat \<times> 'w uffdman) outcome" where
  "read_loop kos arr [] acc s = Inr ([], acc, s)"
| "read_loop kos arr (i # is) acc s =
     ebind (load_double kos arr i s)
       (\<lambda>(v, s1). ebind (load_double kos arr i s1)
          (\<lambda>(w, s2). ebind (read_loop kos arr is (acc + w) s2)
             (\<lambda>(vs, r, s3). Inr (v # vs, r, s3))))"

definition example_loop ::
  "uffd_os \<Rightarrow> ul \<Rightarrow> 'w uffdman \<Rightarrow> ((nat list \<times> nat) \<times> 'w uffdman) outcome" where
  "example_loop kos arr s =
     (let n = 10 * unat (PAGE_SIZE kos) div 8
      in ebind (app_run kos (at_region arr (store_doubles n)) s)
           (\<lambda>(_, s1). ebind (read_loop kos arr [0..<n] 0 s1)
              (\<lambda>(vs, r, s2). Inr ((vs, r), s2))))"

text \<open>
  The result is the exit code and, for each region, the values printed and the sum. The value
  \<^verbatim>\<open>rmp_init\<close> returns is printed and not looked at.
\<close>

definition example_main ::
  "'n client_env \<Rightarrow> int \<Rightarrow> string \<Rightarrow> string \<Rightarrow> int \<Rightarrow> int \<Rightarrow> (ul option \<times> reg_calls) \<Rightarrow>
     (ul option \<times> reg_calls) \<Rightarrow> (ul option \<times> reg_calls) \<Rightarrow> 'n client_proc \<Rightarrow>
     (int \<times> (nat list \<times> nat) list) outcome" where
  "example_main e argc argv1 argv2 fd rc r1 r2 r3 s =
     (if argc \<noteq> 3 then Inr (1, [])
      else
        let cnf = \<lparr>cfg_addr = argv1, cfg_port = of_int (atoi argv2)\<rparr>;
            (_, s0) = rmp_init e fd rc (client_new cnf s)
        in ebind (example_alloc e r1 s0)
             (\<lambda>(arr, s1). ebind (example_alloc e r2 s1)
               (\<lambda>(arr2, s2). ebind (example_alloc e r3 s2)
                 (\<lambda>(arr3, s3). ebind (example_loop (os e) arr s3)
                   (\<lambda>(out1, s4). ebind (example_loop (os e) arr2 s4)
                     (\<lambda>(out2, s5). ebind (example_loop (os e) arr3 s5)
                       (\<lambda>(out3, s6). Inr (0, [out1, out2, out3]))))))))"

subsection \<open>Doubles in a region\<close>

lemma fill_append: "fill k (xs @ ys) = fill k xs @ fill (k + length xs) ys"
  by (induction k xs rule: fill.induct) simp_all

lemma store_doubles_fill: "store_doubles n = fill 0 (concat (map double_bytes [0..<n]))"
proof (induction n)
  case (Suc n)
  have "length (concat (map double_bytes [0..<n])) = 8 * n"
    by (simp add: length_concat comp_def sum_list_triv)
  then show ?case using Suc by (simp add: store_doubles_def fill_append)
qed (simp add: store_doubles_def)

lemma length_doubles: "length (concat (map double_bytes [0..<n])) = 8 * n"
  by (simp add: length_concat comp_def sum_list_triv)

lemma doubles_nth:
  assumes "i < n" "j < 8"
  shows "concat (map double_bytes [0..<n]) ! (8 * i + j) = double_bytes i ! j"
  using assms
proof (induction n)
  case (Suc n)
  show ?case
  proof (cases "i = n")
    case True
    then show ?thesis using Suc.prems by (simp add: nth_append length_doubles)
  next
    case False
    then have "8 * i + j < 8 * n" "i < n" using Suc.prems by simp_all
    then show ?thesis using Suc.IH Suc.prems by (simp add: nth_append length_doubles)
  qed
qed simp

lemma double_slice:
  assumes "i < n"
  shows "map (\<lambda>t. concat (map double_bytes [0..<n]) ! t) [8 * i..<8 * i + 8] = double_bytes i"
proof (rule nth_equalityI)
  fix j assume "j < length (map (\<lambda>t. concat (map double_bytes [0..<n]) ! t) [8 * i..<8 * i + 8])"
  then have "j < 8" by simp
  then show "map (\<lambda>t. concat (map double_bytes [0..<n]) ! t) [8 * i..<8 * i + 8] ! j = double_bytes i ! j"
    using doubles_nth [OF assms] by simp
qed simp

subsection \<open>One region\<close>

text \<open>A region that nobody has touched yet.\<close>

definition fresh_region ::
  "kernel \<Rightarrow> server_proc option client_env \<Rightarrow> ul \<Rightarrow> ul \<Rightarrow> nat \<Rightarrow> server_proc option client_proc \<Rightarrow> bool" where
  "fresh_region k e uffd a n s \<longleftrightarrow>
     (\<exists>pg. client_region k e uffd a \<lparr>backing = replicate n zero_page, cached = None, last_page = pg\<rparr> s)"

lemma fresh_elsewhere:
  assumes "fresh_region k e u' a' n' s" "elsewhere_same (client_remote server_abs) u a n s s'"
    "client_region k e u a c s'" "u \<noteq> u'" "apart a n a' n'"
  shows "fresh_region k e u' a' n' s'"
proof -
  obtain pg where r: "client_region k e u' a' \<lparr>backing = replicate n' zero_page, cached = None, last_page = pg\<rparr> s"
    (is "region_rel _ _ _ _ _ ?c _")
    using assms(1) by (auto simp: fresh_region_def)
  have "base_rel (rmp_pagefault_resovler e) (server_client_inv k e) (client_remote server_abs) u a c s'"
    using assms(3) by (simp add: region_rel_def)
  from region_rel_elsewhere [OF r assms(2) this assms(4)] assms(5)
  have "client_region k e u' a' (?c\<lparr>last_page := last_page c\<rparr>) s'" by simp
  then show ?thesis by (auto simp: fresh_region_def)
qed

lemma load_double_step:
  assumes "client_region k e u a c s" "env_ok (server_handle k) e" "obo_coherent c"
    "8 * n \<le> length (backing c) * 4096" "i < n" "n < 2 ^ 53"
    "\<forall>t < 8 * n. obo_view c t = concat (map double_bytes [0..<n]) ! t"
  shows "\<exists>s1 c1. load_double (os e) a i s = Inr (i, s1) \<and> client_region k e u a c1 s1 \<and> obo_coherent c1 \<and>
    length (backing c1) = length (backing c) \<and> (\<forall>t. obo_view c1 t = obo_view c t) \<and>
    elsewhere_same (client_remote server_abs) u a (length (backing c)) s s1"
proof -
  have ts: "\<forall>t \<in> set [8 * i..<8 * i + 8]. t < length (backing c) * 4096" using assms(4,5) by auto
  have "map (obo_view c) [8 * i..<8 * i + 8] = double_bytes i"
    unfolding double_slice [OF assms(5), symmetric] using assms(5,7) by auto
  moreover have "double_val (double_bytes i) = i" using assms(5,6) by (intro double_val_bytes) simp
  ultimately show ?thesis
    using cli.pb.loads_step [OF assms(1) env_os [OF assms(2)] assms(3) ts] by (auto simp: load_double_def)
qed

lemma read_loop_step:
  assumes "client_region k e u a c s" "env_ok (server_handle k) e" "obo_coherent c"
    "8 * n \<le> length (backing c) * 4096" "\<forall>i \<in> set is. i < n" "n < 2 ^ 53"
    "\<forall>t < 8 * n. obo_view c t = concat (map double_bytes [0..<n]) ! t"
  shows "\<exists>s1 c1. read_loop (os e) a is acc s = Inr (is, acc + sum_list is, s1) \<and> client_region k e u a c1 s1 \<and>
    elsewhere_same (client_remote server_abs) u a (length (backing c)) s s1"
  using assms
proof (induction "is" arbitrary: acc c s)
  case Nil
  then show ?case by auto
next
  case (Cons i "is")
  have i: "i < n" using Cons.prems(5) by simp
  obtain s1 c1 where s1: "load_double (os e) a i s = Inr (i, s1)" "client_region k e u a c1 s1"
    "obo_coherent c1" "length (backing c1) = length (backing c)" "\<forall>t. obo_view c1 t = obo_view c t"
    "elsewhere_same (client_remote server_abs) u a (length (backing c)) s s1"
    using load_double_step [OF Cons.prems(1-4) i Cons.prems(6,7)] by blast
  have "8 * n \<le> length (backing c1) * 4096" "\<forall>t < 8 * n. obo_view c1 t = concat (map double_bytes [0..<n]) ! t"
    using Cons.prems(4,7) s1(4,5) by simp_all
  from load_double_step [OF s1(2) Cons.prems(2) s1(3) this(1) i Cons.prems(6) this(2)]
  obtain s2 c2 where s2: "load_double (os e) a i s1 = Inr (i, s2)" "client_region k e u a c2 s2"
    "obo_coherent c2" "length (backing c2) = length (backing c)" "\<forall>t. obo_view c2 t = obo_view c t"
    "elsewhere_same (client_remote server_abs) u a (length (backing c)) s1 s2"
    using s1(4,5) by auto
  have "8 * n \<le> length (backing c2) * 4096" "\<forall>t < 8 * n. obo_view c2 t = concat (map double_bytes [0..<n]) ! t"
    "\<forall>i \<in> set is. i < n"
    using Cons.prems(4,5,7) s2(4,5) by simp_all
  from Cons.IH [OF s2(2) Cons.prems(2) s2(3) this(1,3) Cons.prems(6) this(2), of "acc + i"]
  obtain s3 c3 where s3: "read_loop (os e) a is (acc + i) s2 = Inr (is, acc + i + sum_list is, s3)"
    "client_region k e u a c3 s3" "elsewhere_same (client_remote server_abs) u a (length (backing c)) s2 s3"
    using s2(4) by auto
  have "elsewhere_same (client_remote server_abs) u a (length (backing c)) s s3"
    using s1(6) s2(6) s3(3) by (meson elsewhere_same_trans)
  then show ?case using s1(1) s2(1) s3(1,2) by (auto simp: add.assoc)
qed

lemma example_loop_fresh:
  assumes fresh: "fresh_region k e u a 11 s" and e: "env_ok (server_handle k) e"
  shows "\<exists>s' c. example_loop (os e) a s = Inr (([0..<5120], sum_list [0..<5120]), s') \<and>
    client_region k e u a c s' \<and> elsewhere_same (client_remote server_abs) u a 11 s s'"
proof -
  let ?bs = "concat (map double_bytes [0..<5120])"
  have pg: "10 * unat (PAGE_SIZE (os e)) div 8 = 5120" using e by (simp add: env_ok_def uffd_os_ok_def)
  obtain pg where r: "client_region k e u a \<lparr>backing = replicate 11 zero_page, cached = None, last_page = pg\<rparr> s"
    (is "region_rel _ _ _ _ _ ?c _")
    using fresh by (auto simp: fresh_region_def)
  have len: "length ?bs = 8 * 5120" by (rule length_doubles)
  have "length ?bs \<noteq> 0" unfolding len by simp
  then have "?bs \<noteq> []" by (simp only: length_0_conv not_False_eq_True)
  moreover have "length ?bs \<le> length (backing ?c) * 4096" unfolding len by simp
  ultimately have "\<exists>s1 c1. app_run (os e) (at_region a (fill 0 ?bs)) s = Inr ([], s1) \<and>
    client_region k e u a c1 s1 \<and> obo_coherent c1 \<and> length (backing c1) = length (backing ?c) \<and>
    (\<forall>i < length ?bs. obo_view c1 i = ?bs ! i) \<and>
    elsewhere_same (client_remote server_abs) u a (length (backing ?c)) s s1"
    by (intro cli.pb.fill_prefix [OF r env_os [OF e]]) simp_all
  then obtain s1 c1 where s1: "app_run (os e) (at_region a (fill 0 ?bs)) s = Inr ([], s1)"
    "client_region k e u a c1 s1" "obo_coherent c1" "length (backing c1) = 11"
    "\<forall>i < 8 * 5120. obo_view c1 i = ?bs ! i" "elsewhere_same (client_remote server_abs) u a 11 s s1"
    unfolding len by auto
  have "8 * 5120 \<le> length (backing c1) * 4096" "\<forall>i \<in> set [0..<5120]. i < 5120" "(5120 :: nat) < 2 ^ 53"
    using s1(4) by simp_all
  from read_loop_step [OF s1(2) e s1(3) this s1(5), of 0]
  obtain s2 c2 where s2: "read_loop (os e) a [0..<5120] 0 s1 = Inr ([0..<5120], sum_list [0..<5120], s2)"
    "client_region k e u a c2 s2" "elsewhere_same (client_remote server_abs) u a 11 s1 s2"
    using s1(4) by auto
  have "example_loop (os e) a s = Inr (([0..<5120], sum_list [0..<5120]), s2)"
    unfolding example_loop_def Let_def pg store_doubles_fill using s1(1) s2(1) by simp
  then show ?thesis using s2(2) elsewhere_same_trans [OF s1(6) s2(3)] by blast
qed

subsection \<open>Three regions\<close>

text \<open>The memory of two regions of eleven pages does not meet.\<close>

definition separated :: "ul \<Rightarrow> ul \<Rightarrow> bool" where
  "separated a a' \<longleftrightarrow> unat a + 45056 \<le> unat a' \<or> unat a' + 45056 \<le> unat a"

lemma separated_sym: "separated a a' \<Longrightarrow> separated a' a"
  by (auto simp: separated_def)

lemma separated_outside:
  assumes "region_ok a' 11" "separated a a'"
  shows "outside a' 11 a 11"
  using assms(2) unat_region [OF region_okD(1) [OF assms(1)]] by (auto simp: outside_def separated_def)

lemma separated_apart:
  assumes "region_ok a 11" "region_ok a' 11" "separated a a'"
  shows "apart a 11 a' 11"
proof -
  have "region_page a i \<noteq> region_page a' j" if "i < 11" "j < 11" for i j
  proof -
    have "unat (region_page a i) = unat a + i * 4096" "unat (region_page a' j) = unat a' + j * 4096"
      unfolding region_page_def using that
      by (simp_all add: unat_region [OF region_okD(1) [OF assms(1)]] unat_region [OF region_okD(1) [OF assms(2)]]
          del: of_nat_mult)
    then show ?thesis using assms(3) that by (auto simp: separated_def)
  qed
  moreover have "a \<noteq> a'" using assms(3) by (auto simp: separated_def)
  ultimately show ?thesis by (simp add: apart_def)
qed

lemma fresh_region_ok: "fresh_region k e u a n s \<Longrightarrow> region_ok a n"
  by (auto simp: fresh_region_def region_rel_def base_rel_def)

text \<open>A client whose regions, listed with their descriptors, are all untouched.\<close>

definition fresh_regions ::
  "kernel \<Rightarrow> server_proc option client_env \<Rightarrow> (ul \<times> ul) list \<Rightarrow> server_proc option client_proc \<Rightarrow> bool" where
  "fresh_regions k e rs s \<longleftrightarrow>
     client_ready (server_handle k) (\<lambda>s. kernel_ok k \<and> server_inv s) server_abs e s \<and>
     resident s = Map.empty \<and> uffd_prev_resolved_addr s = Map.empty \<and>
     (\<exists>hm. addr_hndl_map (world s) = Some hm \<and> dom hm = snd ` set rs) \<and>
     dom (uffd_start_addr_map s) = fst ` set rs \<and>
     (\<forall>(u, a) \<in> set rs. fresh_region k e u a 11 s)"

lemma example_alloc_fresh:
  assumes f: "fresh_regions k e rs s" and srv: "net (world s) = Some srv" "0 < handles_left srv"
    and calls: "first_calls_ok a calls 11"
    and new: "userfaultfd_rc calls \<notin> fst ` set rs" "\<forall>(u', a') \<in> set rs. separated a a'"
    and ans: "server_handle k (alloc_request e 11) srv = Inr (p', srv')" "error p' \<noteq> ALLOC_FAILED"
  shows "\<exists>s2. example_alloc e (Some a, calls) s = Inr (a, s2) \<and>
    fresh_regions k e ((userfaultfd_rc calls, a) # rs) s2 \<and> net (world s2) = Some srv' \<and>
    handles_left srv \<le> Suc (handles_left srv')"
proof -
  let ?u = "userfaultfd_rc calls"
  have ready: "client_ready (server_handle k) (\<lambda>s. kernel_ok k \<and> server_inv s) server_abs e s"
    using f by (simp add: fresh_regions_def)
  obtain hm where M: "addr_hndl_map (world s) = Some hm" "dom hm = snd ` set rs"
    "dom (uffd_start_addr_map s) = fst ` set rs" "resident s = Map.empty"
    "uffd_prev_resolved_addr s = Map.empty"
    using f by (auto simp: fresh_regions_def)
  have "a \<notin> snd ` set rs" using new(2) by (auto simp: separated_def)
  then have "hm a = None" "uffd_start_addr_map s ?u = None" using M(2,3) new(1) by auto
  then have C: "alloc_calls_ok a calls (unat (11 :: u32)) s"
    using calls M by (simp add: alloc_calls_ok_def first_calls_ok_def no_resident_def)
  have n: "unat (11 :: u32) * 4096 < 2 ^ 32" by simp
  obtain s1 s2 pg where S: "rmp_alloc e (Some a) calls 11 s = Inr (a, s1)"
    "fault_handler_thread (os e) ?u [] s1 = Inr (Polling, s2)"
    "s2 = after_alloc a calls 11 (hndl p') (Some srv') pg s"
    "client_ready (server_handle k) (\<lambda>s. kernel_ok k \<and> server_inv s) server_abs e s2"
    "client_region k e ?u a \<lparr>backing = replicate 11 zero_page, cached = None, last_page = pg\<rparr> s2"
    "\<forall>u start' c'. outside start' (length (backing c')) a 11 \<longrightarrow>
       client_region k e u start' c' s \<longrightarrow> client_region k e u start' (c'\<lparr>last_page := pg\<rparr>) s2"
    using cli.alloc_region [OF ready srv(1) C n srv(2) ans] by auto
  have old: "fresh_region k e u' a' 11 s2" if "(u', a') \<in> set rs" for u' a'
  proof -
    have r: "fresh_region k e u' a' 11 s" using f that by (auto simp: fresh_regions_def)
    have "outside a' 11 a 11"
      using separated_outside [OF fresh_region_ok [OF r]] new(2) that by auto
    moreover obtain q where
      "client_region k e u' a' \<lparr>backing = replicate 11 zero_page, cached = None, last_page = q\<rparr> s"
      (is "region_rel _ _ _ _ _ ?c _")
      using r by (auto simp: fresh_region_def)
    ultimately have "client_region k e u' a' (?c\<lparr>last_page := pg\<rparr>) s2"
      using S(6) [rule_format, of a' ?c u'] by simp
    then show ?thesis by (auto simp: fresh_region_def)
  qed
  have "fresh_region k e ?u a 11 s2" using S(5) by (auto simp: fresh_region_def)
  moreover have "addr_hndl_map (world s2) = Some (hm(a \<mapsto> hndl p'))"
    "uffd_start_addr_map s2 = (uffd_start_addr_map s)(?u \<mapsto> a)" "resident s2 = Map.empty"
    "uffd_prev_resolved_addr s2 = Map.empty" "net (world s2) = Some srv'"
    using M by (simp_all add: S(3) after_alloc_def)
  ultimately have "fresh_regions k e ((?u, a) # rs) s2" "net (world s2) = Some srv'"
    using S(4) old M(2,3) by (auto simp: fresh_regions_def)
  moreover have "handles_left srv \<le> Suc (handles_left srv')"
    using cli.alloc_answer(4) [OF _ _ n srv(2) ans] ready srv(1)
    by (auto simp: client_ready_def client_inv_def)
  moreover have "example_alloc e (Some a, calls) s = Inr (a, s2)"
    using S(1,2) calls ready
    by (simp add: example_alloc_def thread_started_def first_calls_ok_def client_ready_def client_inv_def)
  ultimately show ?thesis by blast
qed

lemma example_loop_others:
  assumes fr: "\<forall>(u', a') \<in> set ((u, a) # rs). fresh_region k e u' a' 11 s"
    and e: "env_ok (server_handle k) e"
    and sep: "\<forall>(u', a') \<in> set rs. u' \<noteq> u \<and> separated a a'"
  shows "\<exists>s'. example_loop (os e) a s = Inr (([0..<5120], sum_list [0..<5120]), s') \<and>
    (\<forall>(u', a') \<in> set rs. fresh_region k e u' a' 11 s')"
proof -
  have fa: "fresh_region k e u a 11 s" using fr by simp
  from example_loop_fresh [OF fa e]
  obtain s' c where s': "example_loop (os e) a s = Inr (([0..<5120], sum_list [0..<5120]), s')"
    "client_region k e u a c s'" "elsewhere_same (client_remote server_abs) u a 11 s s'"
    by blast
  have "fresh_region k e u' a' 11 s'" if "(u', a') \<in> set rs" for u' a'
  proof -
    have f': "fresh_region k e u' a' 11 s" "u \<noteq> u'" "separated a a'" using fr sep that by auto
    then have "apart a 11 a' 11" by (intro separated_apart fresh_region_ok [OF fa] fresh_region_ok [OF f'(1)])
    with fresh_elsewhere [OF f'(1) s'(3,2) f'(2)] show ?thesis .
  qed
  then show ?thesis using s'(1) by blast
qed

lemma sum_upto_5120: "sum_list [0..<5120] = (13104640 :: nat)"
proof -
  have "sum_list [0..<5120] = \<Sum>{0..<5120 :: nat}" by (rule sum_list_upt) simp
  also have "\<dots> = 13104640" by (simp add: Sum_Ico_nat)
  finally show ?thesis .
qed

lemma example_init:
  assumes "kernel_ok k" "server_inv srv" "env_ok (server_handle k) e" "scratch_ok (os e)" "0 \<le> fd" "0 \<le> rc"
  shows "\<exists>s0. rmp_init e fd rc (client_new cnf (client_start cfg (Some srv))) = (0, s0) \<and>
    fresh_regions k e [] s0 \<and> net (world s0) = Some srv"
proof -
  have "\<forall>h pages. server_abs srv h = Some pages \<longrightarrow> length pages < 2 ^ 32"
    using server_pages_small by blast
  from cli.init_ready [of k srv e fd rc cnf, OF _ assms(3-6) this]
  show ?thesis using assms(1,2) by (auto simp: client_new_def client_start_def fresh_regions_def)
qed

lemma example_regions:
  assumes "kernel_ok k" "server_inv srv" "env_ok (server_handle k) e" "scratch_ok (os e)" "0 \<le> fd" "0 \<le> rc"
    "2 < handles_left srv"
    "first_calls_ok a1 r1 11" "first_calls_ok a2 r2 11" "first_calls_ok a3 r3 11"
    and u: "distinct [userfaultfd_rc r1, userfaultfd_rc r2, userfaultfd_rc r3]"
    and sep: "separated a1 a2" "separated a1 a3" "separated a2 a3"
    and ans: "server_handle k (alloc_request e 11) srv = Inr (p1, srv1)" "error p1 \<noteq> ALLOC_FAILED"
      "server_handle k (alloc_request e 11) srv1 = Inr (p2, srv2)" "error p2 \<noteq> ALLOC_FAILED"
      "server_handle k (alloc_request e 11) srv2 = Inr (p3, srv3)" "error p3 \<noteq> ALLOC_FAILED"
  obtains s0 s1 s2 s3 where
    "rmp_init e fd rc (client_new cnf (client_start cfg (Some srv))) = (0, s0)"
    "example_alloc e (Some a1, r1) s0 = Inr (a1, s1)" "example_alloc e (Some a2, r2) s1 = Inr (a2, s2)"
    "example_alloc e (Some a3, r3) s2 = Inr (a3, s3)"
    "\<forall>(u, a) \<in> set [(userfaultfd_rc r1, a1), (userfaultfd_rc r2, a2), (userfaultfd_rc r3, a3)].
       fresh_region k e u a 11 s3"
proof -
  obtain s0 where s0: "rmp_init e fd rc (client_new cnf (client_start cfg (Some srv))) = (0, s0)"
    "fresh_regions k e [] s0" "net (world s0) = Some srv"
    using example_init [OF assms(1-6)] by blast
  have h0: "0 < handles_left srv" using assms(7) by simp
  from example_alloc_fresh [OF s0(2,3) h0 assms(8) _ _ ans(1,2)]
  obtain s1 where s1: "example_alloc e (Some a1, r1) s0 = Inr (a1, s1)"
    "fresh_regions k e [(userfaultfd_rc r1, a1)] s1" "net (world s1) = Some srv1"
    "handles_left srv \<le> Suc (handles_left srv1)"
    by auto
  have h1: "0 < handles_left srv1" using assms(7) s1(4) by simp
  from example_alloc_fresh [OF s1(2,3) h1 assms(9) _ _ ans(3,4)]
  obtain s2 where s2: "example_alloc e (Some a2, r2) s1 = Inr (a2, s2)"
    "fresh_regions k e [(userfaultfd_rc r2, a2), (userfaultfd_rc r1, a1)] s2"
    "net (world s2) = Some srv2" "handles_left srv1 \<le> Suc (handles_left srv2)"
    using u separated_sym [OF sep(1)] by auto
  have h2: "0 < handles_left srv2" using assms(7) s1(4) s2(4) by simp
  from example_alloc_fresh [OF s2(2,3) h2 assms(10) _ _ ans(5,6)]
  obtain s3 where s3: "example_alloc e (Some a3, r3) s2 = Inr (a3, s3)"
    "fresh_regions k e [(userfaultfd_rc r3, a3), (userfaultfd_rc r2, a2), (userfaultfd_rc r1, a1)] s3"
    using u separated_sym [OF sep(2)] separated_sym [OF sep(3)] by auto
  show ?thesis
    using that [OF s0(1) s1(1) s2(1) s3(1)] s3(2) by (simp add: fresh_regions_def)
qed

text \<open>
  C40. The example program. Run with an address and a port against a server that grants its three
  allocations of eleven pages, on memory that does not overlap and with three descriptors, the
  program ends with exit code 0: for each of its three regions it prints the numbers 0 to 5119 in
  order and the sum 13104640, although each region keeps at most one page in the client.
\<close>

theorem client_example_sums:
  assumes "kernel_ok k" "server_inv srv" "env_ok (server_handle k) e" "scratch_ok (os e)" "0 \<le> fd" "0 \<le> rc"
    "2 < handles_left srv"
    "first_calls_ok a1 r1 11" "first_calls_ok a2 r2 11" "first_calls_ok a3 r3 11"
    "distinct [userfaultfd_rc r1, userfaultfd_rc r2, userfaultfd_rc r3]"
    "separated a1 a2" "separated a1 a3" "separated a2 a3"
    "server_handle k (alloc_request e 11) srv = Inr (p1, srv1)" "error p1 \<noteq> ALLOC_FAILED"
    "server_handle k (alloc_request e 11) srv1 = Inr (p2, srv2)" "error p2 \<noteq> ALLOC_FAILED"
    "server_handle k (alloc_request e 11) srv2 = Inr (p3, srv3)" "error p3 \<noteq> ALLOC_FAILED"
  shows "example_main e 3 addr port fd rc (Some a1, r1) (Some a2, r2) (Some a3, r3)
      (client_start cfg (Some srv)) = Inr (0, replicate 3 ([0..<5120], 13104640))"
proof -
  let ?rs = "[(userfaultfd_rc r1, a1), (userfaultfd_rc r2, a2), (userfaultfd_rc r3, a3)]"
  obtain s0 s1 s2 s3 where S: "rmp_init e fd rc (client_new
      \<lparr>cfg_addr = addr, cfg_port = of_int (atoi port)\<rparr> (client_start cfg (Some srv))) = (0, s0)"
    "example_alloc e (Some a1, r1) s0 = Inr (a1, s1)" "example_alloc e (Some a2, r2) s1 = Inr (a2, s2)"
    "example_alloc e (Some a3, r3) s2 = Inr (a3, s3)"
    "\<forall>(u, a) \<in> set ?rs. fresh_region k e u a 11 s3"
    by (rule example_regions [OF assms])
  obtain s4 where L1: "example_loop (os e) a1 s3 = Inr (([0..<5120], sum_list [0..<5120]), s4)"
    "\<forall>(u, a) \<in> set (tl ?rs). fresh_region k e u a 11 s4"
    using example_loop_others [OF S(5) assms(3)] assms(11-13) by auto
  obtain s5 where L2: "example_loop (os e) a2 s4 = Inr (([0..<5120], sum_list [0..<5120]), s5)"
    "\<forall>(u, a) \<in> set (tl (tl ?rs)). fresh_region k e u a 11 s5"
    using example_loop_others [OF L1(2) [unfolded list.sel] assms(3)] assms(11,14) by auto
  obtain s6 where L3: "example_loop (os e) a3 s5 = Inr (([0..<5120], sum_list [0..<5120]), s6)"
    using example_loop_others [OF L2(2) [unfolded list.sel] assms(3)] by auto
  note L = L1(1) L2(1) L3
  show ?thesis
    by (simp add: example_main_def S(1-4) L [unfolded sum_upto_5120] numeral_3_eq_3 del: upt_rec_numeral)
qed

text \<open>A server whose kernel has three slots of eleven pages, and the memory after each allocation.\<close>

abbreviation slots3 :: kernel where
  "slots3 \<equiv> slot_kernel [65536, 131072, 196608]"

definition slots3_mem :: "nat \<Rightarrow> memory" where
  "slots3_mem n = (\<lambda>x. if \<exists>i < n. in_range (of_nat (65536 * Suc i)) 45056 x then Some 0 else None)"

definition slots3_env :: "server_proc option client_env" where
  "slots3_env = demo_env\<lparr>exchange := live_exchange (server_handle slots3)\<rparr>"

lemma slots3_env_facts: "env_ok (server_handle slots3) slots3_env" "scratch_ok (os slots3_env)"
  by (simp_all add: slots3_env_def env_ok_def demo_env_def uffd_os_ok_def packet_ok_def)

lemma slot_mapped:
  assumes "i < 3" "j < 3" "t < 45056"
  shows "in_range (of_nat (65536 * Suc i)) 45056 (of_nat (65536 * Suc j) + of_nat t :: ul) \<longleftrightarrow> i = j"
proof
  assume "in_range (of_nat (65536 * Suc i)) 45056 (of_nat (65536 * Suc j) + of_nat t :: ul)"
  then obtain s where s: "s < 45056"
    "of_nat (65536 * Suc j) + of_nat t = (of_nat (65536 * Suc i) + of_nat s :: ul)"
    by (rule in_range_obtain)
  then have "of_nat (65536 * Suc j + t) = (of_nat (65536 * Suc i + s) :: ul)" by (simp only: of_nat_add)
  then have "65536 * Suc j + t = 65536 * Suc i + s"
    by (rule of_nat_ul_inj) (use assms s(1) in simp_all)
  then show "i = j" using assms(3) s(1) by (cases i j rule: linorder_cases) simp_all
next
  assume "i = j"
  then show "in_range (of_nat (65536 * Suc i)) 45056 (of_nat (65536 * Suc j) + of_nat t :: ul)"
    using in_range_of_nat [of t "of_nat (65536 * Suc i)" 45056] assms(3) by simp
qed

lemma slot_free_slots3:
  assumes "j < 3" "n \<le> 3"
  shows "slot_free (slots3_mem n) 45056 (of_nat (65536 * Suc j)) \<longleftrightarrow> n \<le> j"
proof -
  have u: "unat (of_nat (65536 * Suc j) :: ul) = 65536 * Suc j"
    by (rule unat_of_nat_ul) (use assms in simp)
  then have z: "(of_nat (65536 * Suc j) :: ul) \<noteq> 0" by (intro notI) (simp only: unat_0, simp)
  have "slots3_mem n (of_nat (65536 * Suc j) + of_nat t) = None \<longleftrightarrow> n \<le> j" if "t < 45056" for t
  proof -
    have "i < 3" if "i < n" for i using that assms(2) by simp
    then have "(\<exists>i < n. in_range (of_nat (65536 * Suc i)) 45056 (of_nat (65536 * Suc j) + of_nat t :: ul)) \<longleftrightarrow> j < n"
      using slot_mapped [OF _ assms(1) that] by blast
    then show ?thesis unfolding slots3_mem_def by (auto simp del: of_nat_mult of_nat_Suc)
  qed
  then have q: "(\<forall>t < 45056. slots3_mem n (of_nat (65536 * Suc j) + of_nat t) = None) \<longleftrightarrow> n \<le> j"
    by (metis zero_less_numeral)
  have r: "round_up 4096 (unat (45056 :: ul)) = 45056" by (simp add: round_up_def)
  have "65536 * Suc j mod 4096 = 0" by simp
  moreover have "65536 * Suc j + 45056 \<le> 2 ^ 64" using assms(1) by simp
  ultimately show ?thesis unfolding slot_free_def u r q using z by blast
qed

lemma slots3_pick:
  assumes "n < 3"
  shows "sys_mmap slots3 (slots3_mem n) 45056 = Some (of_nat (65536 * Suc n), slots3_mem (Suc n))"
proof -
  have eq: "slots3 = slot_kernel (map (\<lambda>j. of_nat (65536 * Suc j)) [0, 1, 2])" by simp
  have "find (slot_free (slots3_mem n) 45056) (map (\<lambda>j. of_nat (65536 * Suc j)) [0, 1, 2]) =
      Some (of_nat (65536 * Suc n))"
    using assms slot_free_slots3 [of 0 n] slot_free_slots3 [of 1 n] slot_free_slots3 [of 2 n]
    by (auto simp del: of_nat_mult of_nat_Suc simp: less_Suc_eq numeral_3_eq_3)
  then have "mmap_pick slots3 (slots3_mem n) 45056 = Some (of_nat (65536 * Suc n))"
    unfolding eq by (simp add: slot_kernel_def del: of_nat_mult of_nat_Suc list.map)
  then show ?thesis
    by (auto simp: sys_mmap_def slots3_mem_def round_up_def slot_kernel_def less_Suc_eq fun_eq_iff
        simp del: of_nat_mult of_nat_Suc)
qed

lemma slots3_alloc:
  assumes "n < 3" "mem s = slots3_mem n" "handle_count s = of_nat n"
  shows "\<exists>p' s'. server_handle slots3 (alloc_request slots3_env 11) s = Inr (p', s') \<and>
    error p' \<noteq> ALLOC_FAILED \<and> mem s' = slots3_mem (Suc n) \<and> handle_count s' = of_nat (Suc n)"
proof -
  have "ucast (handle_count s) \<noteq> (- 1 :: handle)"
    using assms(1) unfolding assms(3) by (auto simp: less_Suc_eq numeral_3_eq_3)
  then show ?thesis
    using slots3_pick [OF assms(1)] assms(2,3)
    by (auto simp: server_handle_def handle_alloc_def server_alloc_eq alloc_request_def slots3_env_def
        demo_env_def page_size_def sample_packet_def error_codes)
qed

theorem client_example_sums_witness:
  "example_main slots3_env 3 ''127.0.0.1'' ''8080'' 3 0 (Some 1048576, demo_calls 5 9)
      (Some 2097152, demo_calls 6 10) (Some 3145728, demo_calls 7 11)
      (client_start demo_config (Some (new_server Map.empty))) = Inr (0, replicate 3 ([0..<5120], 13104640))"
proof -
  have "mem (new_server Map.empty) = slots3_mem 0" by (simp add: slots3_mem_def)
  then obtain p1 s1 where 1: "server_handle slots3 (alloc_request slots3_env 11) (new_server Map.empty) = Inr (p1, s1)"
    "error p1 \<noteq> ALLOC_FAILED" "mem s1 = slots3_mem (Suc 0)" "handle_count s1 = of_nat (Suc 0)"
    using slots3_alloc [of 0 "new_server Map.empty"] by auto
  obtain p2 s2 where 2: "server_handle slots3 (alloc_request slots3_env 11) s1 = Inr (p2, s2)"
    "error p2 \<noteq> ALLOC_FAILED" "mem s2 = slots3_mem (Suc (Suc 0))" "handle_count s2 = of_nat (Suc (Suc 0))"
    using slots3_alloc [OF _ 1(3,4)] by auto
  obtain p3 s3 where 3: "server_handle slots3 (alloc_request slots3_env 11) s2 = Inr (p3, s3)"
    "error p3 \<noteq> ALLOC_FAILED"
    using slots3_alloc [OF _ 2(3,4)] by auto
  show ?thesis
    by (rule client_example_sums [OF kernel_ok_slot_kernel new_server_inv slots3_env_facts _ _ _ _ _ _ _ _ _ _
          1(1,2) 2(1,2) 3])
      (simp_all add: first_calls_ok_def demo_calls_def region_ok_def separated_def)
qed

end
