(* ===== verification/Client_Print.thy ===== *)
theory Client_Print
  imports RMP_Prelude
begin

text \<open>
  The function \<^verbatim>\<open>print(int)\<close> of \<^verbatim>\<open>client/rmp_client.cpp\<close>, which writes a number to the console
  digit by digit. Its argument is a 32-bit int, here an integer; negation wraps at 32 bits, and
  \<open>quot10\<close> and \<open>rem10\<close> are the division and remainder of C++, which truncate towards zero.
\<close>

definition wrap32 :: "int \<Rightarrow> int" where
  "wrap32 n = (n + 2 ^ 31) mod 2 ^ 32 - 2 ^ 31"

definition quot10 :: "int \<Rightarrow> int" where
  "quot10 n = sgn n * (\<bar>n\<bar> div 10)"

definition rem10 :: "int \<Rightarrow> int" where
  "rem10 n = sgn n * (\<bar>n\<bar> mod 10)"

lemma wrap32_id: "- (2 ^ 31) \<le> n \<Longrightarrow> n < 2 ^ 31 \<Longrightarrow> wrap32 n = n"
  by (simp add: wrap32_def)

lemma wrap32_neg_less:
  assumes "n < 0"
  shows "\<bar>wrap32 (- n)\<bar> \<le> \<bar>n\<bar>"
proof (cases "- n < 2 ^ 31")
  case True
  then show ?thesis using assms by (simp add: wrap32_id)
next
  case False
  have "0 \<le> (- n + 2 ^ 31) mod 2 ^ 32" "(- n + 2 ^ 31) mod 2 ^ 32 < (2 :: int) ^ 32" by simp_all
  then have "- (2 ^ 31) \<le> wrap32 (- n)" "wrap32 (- n) < 2 ^ 31" by (simp_all add: wrap32_def)
  then show ?thesis using False by linarith
qed

lemma quot10_less: "quot10 n \<noteq> 0 \<Longrightarrow> \<bar>quot10 n\<bar> < \<bar>n\<bar>"
  by (auto simp: quot10_def abs_mult sgn_if)

function print_int :: "int \<Rightarrow> string" where
  "print_int n =
     (let m = (if n < 0 then wrap32 (- n) else n)
      in (if n < 0 then ''-'' else []) @ (if quot10 m \<noteq> 0 then print_int (quot10 m) else []) @
         [char_of (nat (rem10 m + 48))])"
  by pat_completeness auto
termination
proof (relation "measure (\<lambda>n. nat \<bar>n\<bar>)")
  fix n m :: int
  assume m: "m = (if n < 0 then wrap32 (- n) else n)" "quot10 m \<noteq> 0"
  have "\<bar>m\<bar> \<le> \<bar>n\<bar>" using m(1) wrap32_neg_less [of n] by simp
  then show "(quot10 m, n) \<in> measure (\<lambda>n. nat \<bar>n\<bar>)" using quot10_less [OF m(2)] by simp
qed simp

declare print_int.simps [simp del]

subsection \<open>Reading decimal numbers\<close>

definition digit_val :: "char \<Rightarrow> int" where
  "digit_val c = int (of_char c) - 48"

definition read_digits :: "string \<Rightarrow> int" where
  "read_digits s = foldl (\<lambda>a c. 10 * a + digit_val c) 0 s"

definition read_int :: "string \<Rightarrow> int" where
  "read_int s = (case s of [] \<Rightarrow> 0 | c # cs \<Rightarrow> if c = CHR ''-'' then - read_digits cs else read_digits s)"

text \<open>A decimal numeral: digits only, and no zero in front of others.\<close>

definition numeral_ok :: "string \<Rightarrow> bool" where
  "numeral_ok s \<longleftrightarrow>
     s \<noteq> [] \<and> (\<forall>c \<in> set s. digit_val c \<in> {0..9}) \<and> (1 < length s \<longrightarrow> digit_val (hd s) \<noteq> 0)"

lemma digit_char: "0 \<le> d \<Longrightarrow> d < 10 \<Longrightarrow> digit_val (char_of (nat (d + 48))) = d"
  by (simp add: digit_val_def)

lemma read_digits_snoc: "read_digits (s @ [c]) = 10 * read_digits s + digit_val c"
  by (simp add: read_digits_def)

lemma print_nonneg:
  assumes "0 \<le> n"
  shows "print_int n =
    (if n div 10 \<noteq> 0 then print_int (n div 10) else []) @ [char_of (nat (n mod 10 + 48))]"
proof -
  have "quot10 n = n div 10" "rem10 n = n mod 10" using assms by (simp_all add: quot10_def rem10_def sgn_if)
  then show ?thesis using assms by (simp add: print_int.simps [of n])
qed

lemma print_digits:
  assumes "0 \<le> n"
  shows "read_digits (print_int n) = n \<and> numeral_ok (print_int n) \<and>
    (0 < n \<longrightarrow> digit_val (hd (print_int n)) \<noteq> 0)"
  using assms
proof (induction n rule: measure_induct_rule [of nat])
  case (less n)
  let ?c = "char_of (nat (n mod 10 + 48)) :: char"
  have c: "digit_val ?c = n mod 10" by (rule digit_char) simp_all
  show ?case
  proof (cases "n div 10 = 0")
    case True
    then have "n mod 10 = n" using less.prems by simp
    then show ?thesis using c True less.prems
      by (simp add: print_nonneg [OF less.prems] read_digits_def numeral_ok_def)
  next
    case False
    then have "0 < n" using less.prems by (cases "n = 0") simp_all
    moreover from this have "n div 10 < n" by (intro int_div_less_self) simp_all
    moreover have "0 < n div 10" using False less.prems by (simp add: order_less_le pos_imp_zdiv_nonneg_iff)
    ultimately have "0 < n div 10" "nat (n div 10) < nat n" by simp_all
    then have IH: "read_digits (print_int (n div 10)) = n div 10" "numeral_ok (print_int (n div 10))"
      "digit_val (hd (print_int (n div 10))) \<noteq> 0"
      using less.IH [of "n div 10"] by simp_all
    have p: "print_int n = print_int (n div 10) @ [?c]"
      using False by (simp add: print_nonneg [OF less.prems])
    show ?thesis unfolding p using IH c
      by (auto simp: read_digits_snoc numeral_ok_def hd_append)
  qed
qed

lemma print_minus:
  assumes "- (2 ^ 31) < n" "n < 0"
  shows "print_int n = CHR ''-'' # print_int (- n)"
proof -
  have "wrap32 (- n) = - n" using assms by (intro wrap32_id) simp_all
  then show ?thesis using assms(2) by (simp add: print_int.simps [of n] print_int.simps [of "- n"] Let_def)
qed

lemma print_least: "print_int (- (2 ^ 31)) = ''--214748364(''"
  by (simp add: print_int.simps wrap32_def quot10_def rem10_def char_of_def bit_0)

text \<open>
  C39. Printing a number. For every int but the least, \<^verbatim>\<open>print\<close> writes its decimal numeral: a sign
  if it is negative, then digits without leading zeros that read back as its absolute value. The
  least int has no negation; it is printed with two signs and a character that is no digit.
\<close>

theorem print_int_reads_back:
  assumes "- (2 ^ 31) < n" "n < 2 ^ 31"
  shows "read_int (print_int n) = n \<and>
    (\<exists>ds. print_int n = (if n < 0 then ''-'' else []) @ ds \<and> numeral_ok ds) \<and>
    print_int (- (2 ^ 31)) = ''--214748364(''"
proof (cases "n < 0")
  case True
  have d: "read_digits (print_int (- n)) = - n" "numeral_ok (print_int (- n))"
    using print_digits [of "- n"] True by simp_all
  then show ?thesis
    using print_minus [OF assms(1) True] True print_least by (simp add: read_int_def)
next
  case False
  then have d: "read_digits (print_int n) = n" "numeral_ok (print_int n)"
    using print_digits [of n] by simp_all
  obtain c cs where cs: "print_int n = c # cs" using d(2) by (cases "print_int n") (simp_all add: numeral_ok_def)
  have "digit_val c \<in> {0..9}" using d(2) cs by (simp add: numeral_ok_def)
  then have "c \<noteq> CHR ''-''" by (auto simp: digit_val_def)
  then show ?thesis using d cs False print_least by (simp add: read_int_def)
qed

theorem print_int_reads_back_witness:
  "read_int (print_int (- 207)) = - 207 \<and> print_int (- (2 ^ 31)) = ''--214748364(''"
  using print_int_reads_back [of "- 207"] by simp

end
