(* ===== verification/Spec2Isabelle.thy ===== *)
theory Spec2Isabelle
  imports Server_Net RMP_Server_Props Handler_Threads Preloadlib Client_Example Client_Print
begin

text \<open>
  rmpool gives a program memory that lives in another machine. A server process keeps regions of
  pages and serves packets over TCP; a client library asks it for a region, maps an equally large
  range of its own address space and registers it with userfaultfd; a handler thread per region
  fetches pages on faults and writes dirty pages back. A preload library puts this memory behind
  \<^verbatim>\<open>malloc\<close>. This development models the server, its network loop, the userfaultfd manager, the
  client library, the preload library and the example program, and proves what a program that uses
  them can rely on.

  \<^bold>\<open>The parts and their theories\<close>

  \<^item> \<^verbatim>\<open>RMP_Prelude\<close>: machine integers, faults, the outcome type, facts on words.
  \<^item> \<^verbatim>\<open>RMP_Types\<close>: \<^verbatim>\<open>include/rmp_types.hpp\<close> and the packet of \<^verbatim>\<open>include/rmp_server.hpp\<close>, with its
    layout as 4128 bytes and the round trip between packets and bytes.
  \<^item> \<^verbatim>\<open>OS_Memory\<close>: the memory of the server process as a partial map from addresses to bytes, with
    \<^verbatim>\<open>mmap\<close> and \<^verbatim>\<open>munmap\<close>. What the kernel decides is a record \<^verbatim>\<open>kernel\<close>; what the server relies on is
    \<^verbatim>\<open>kernel_ok\<close> (a new mapping is page aligned, free and does not wrap), which \<^verbatim>\<open>slot_kernel\<close>
    satisfies.
  \<^item> \<^verbatim>\<open>RMP_Server\<close>: the class \<^verbatim>\<open>rmp::Server\<close> (\<^verbatim>\<open>include/rmp_server.hpp\<close>, \<^verbatim>\<open>server/rmp_server.cpp\<close>),
    one definition per method, and the invariant \<^verbatim>\<open>server_inv\<close>.
  \<^item> \<^verbatim>\<open>Page_Pool\<close>: the abstract pool of pages, and the locale \<^verbatim>\<open>page_pool\<close>, the contract of a page
    server; \<^verbatim>\<open>RMP_Server_Spec\<close> proves that the server refines the pool request by request and
    interprets the locale; \<^verbatim>\<open>RMP_Server_Props\<close> holds the properties of the server.
  \<^item> \<^verbatim>\<open>Server_Net\<close>: \<^verbatim>\<open>server/server.cpp\<close>, that is \<^verbatim>\<open>readn\<close>, \<^verbatim>\<open>writen\<close>, the connection thread, the
    accept loop and \<^verbatim>\<open>main\<close>, with their properties.
  \<^item> \<^verbatim>\<open>Uffdman\<close>: \<^verbatim>\<open>uffdman/uffdman.cpp\<close>. The globals are the record \<^verbatim>\<open>uffdman\<close>, which also holds the
    resident pages of the registered ranges; the page resolver is a function over the state of the
    code that registered it. \<^verbatim>\<open>Uffdman_Runs\<close> has the step relation of the manager, the invariant of
    its maps and its failures.
  \<^item> \<^verbatim>\<open>Off_By_One\<close> and \<^verbatim>\<open>Off_By_One_Bytes\<close>: what the manager implements for one region, as a machine
    with backing pages, at most one cached page and the page read last; the locale \<^verbatim>\<open>page_backing\<close>,
    the contract of a page resolver; and the proof, inside the locale, that handling a fault is a
    step of the machine. The effect of loads and stores of bytes is stated exactly.
  \<^item> \<^verbatim>\<open>Remote_Memory\<close>: loads and stores of an application that runs into faults, over the manager,
    and their refinement of the byte machine, with a frame for everything outside the region.
  \<^item> \<^verbatim>\<open>RMP_Client\<close>: \<^verbatim>\<open>client/rmp_client.cpp\<close> and \<^verbatim>\<open>include/rmp_client.hpp\<close>. The connection to the
    server is a parameter of the environment; \<^verbatim>\<open>Remote_Client\<close> connects it to any page server
    (\<^verbatim>\<open>live_exchange\<close>) and proves that the client's resolver satisfies \<^verbatim>\<open>page_backing\<close> (a sublocale);
    \<^verbatim>\<open>Remote_Alloc\<close> proves that initialisation, allocation and the start of the handler thread make
    a region; \<^verbatim>\<open>Remote_Props\<close> interprets the contract on the server and has the properties of the
    whole system.
  \<^item> \<^verbatim>\<open>Handler_Threads\<close>: the handler threads of several regions as a step relation, with the static
    message buffer and the mutex \<^verbatim>\<open>fault_handler_cr\<close> they share, and the locking of \<^verbatim>\<open>malloc\<close>.
  \<^item> \<^verbatim>\<open>Float_Ints\<close>: the conversion of a size to \<^verbatim>\<open>float\<close> and natural numbers as the bytes of a
    \<^verbatim>\<open>double\<close>. \<^verbatim>\<open>Preloadlib\<close>: \<^verbatim>\<open>preloadlib/preloadlib.cpp\<close> on top of the client library.
    \<^verbatim>\<open>Client_Example\<close>: the program \<^verbatim>\<open>client/client.cpp\<close>, run against the server.
    \<^verbatim>\<open>Client_Print\<close>: the function \<^verbatim>\<open>print(int)\<close> of \<^verbatim>\<open>client/rmp_client.cpp\<close>.

  \<^bold>\<open>What is proved\<close>

  C1 to C9, server: sessions refine the pool, reads return what was written, fresh pages are zero,
  unknown handles and offsets out of range are rejected, freed handles stay dead, handles are
  distinct; and, outside the requests a client sends, that the size of every larger allocation wraps
  at 32 bits and that the page size of a request is not checked. C10 to C15, network: \<^verbatim>\<open>writen\<close> is correct,
  \<^verbatim>\<open>readn\<close> reports success after half of the bytes, connections serve sessions of the pool when
  requests arrive whole, and answer a split request twice; the accept loop. C16 to C25, C29 and
  C30, system: allocation, the refinement of the off-by-one machine, filling a region and reading it
  back through the server, fresh memory, two regions side by side, residency, the flush when a
  region is unregistered, explicit page access, the handler thread; and the ways in which a region
  differs from memory, lost updates (C20) and stale pages (C21), which may be pages of another
  region (C29). C26 to C28, manager: its maps, and its failures. C31 to C34, preload library: the
  number of pages of a request below 16 MiB and its shortfall above, the first \<^verbatim>\<open>malloc\<close>, and \<^verbatim>\<open>malloc\<close>
  without a server. C35 to C37, threads: the mutex excludes the handlers from each other, but the
  message buffer is outside it and the second unlock of \<^verbatim>\<open>malloc\<close> breaks it. C38: \<^verbatim>\<open>readn\<close> returns.
  C39: \<^verbatim>\<open>print(int)\<close> prints the decimal numeral of every int but the least. C40: the example program
  prints the right numbers and sums.

  \<^bold>\<open>Choices\<close>

  Loops over what the network delivers recurse on the list of arrivals, so they end when it does;
  a call that would block for ever is a value of its own (\<^const>\<open>None\<close>, \<^verbatim>\<open>Waiting\<close>, \<^verbatim>\<open>Polling\<close>). No fuel is
  used. A crash of a process is a value of type \<^verbatim>\<open>fault\<close>. The properties of the client
  assume of the machine (\<^verbatim>\<open>uffd_os_ok\<close>) a page size of 4096, since the packet holds 4096 bytes, and
  that \<^verbatim>\<open>UFFDIO_COPY\<close> to a registered page that is not resident succeeds. In the properties of the
  whole system the connection hands each packet over whole (\<^verbatim>\<open>live_exchange\<close>); what TCP may do to it
  is the subject of C12 and C13.

  \<^bold>\<open>What is not modelled\<close>

  The benchmarks, which measure time and which the random numbers and the clock decide (one of them
  does not compile), and the test programs; the debugging output of the client and the manager,
  which the build turns off, and the tracing of the preload library; interleaving of server
  connections, which the join in the accept loop excludes; the sleeps of the client; sends that are cut short or hit a closed connection; the rest of the server's
  memory, which a request with a false page size could reach; in the preload library, the allocations of the nodes of maps.
\<close>

end
